theory Spec2Isabelle
  imports Main "HOL-Library.Sublist"
begin

section \<open>Python strings\<close>

text \<open>
  A Python \<open>str\<close> is a sequence of Unicode code points, so the tokens of the move parser
  are lists of code points. The parser's own literals are Cyrillic (castling phrases,
  filler words, the transliteration table), hence bytes would not do: \<open>len\<close>, slicing and
  \<open>replace\<close> all count code points.
\<close>

type_synonym pystr = "nat list"

definition asc :: "string \<Rightarrow> pystr" where
  "asc s = map of_char s"

text \<open>\<open>str.isspace\<close> of one code point, the set that \<open>str.strip()\<close> removes.\<close>

definition isspace :: "nat \<Rightarrow> bool" where
  "isspace c \<longleftrightarrow>
     (9 \<le> c \<and> c \<le> 13) \<or> (28 \<le> c \<and> c \<le> 32) \<or> c = 133 \<or> c = 160 \<or> c = 5760 \<or>
     (8192 \<le> c \<and> c \<le> 8202) \<or> c = 8232 \<or> c = 8233 \<or> c = 8239 \<or> c = 8287 \<or> c = 12288"

definition strip :: "pystr \<Rightarrow> pystr" where
  "strip s = rev (dropWhile isspace (rev (dropWhile isspace s)))"

text \<open>
  Case mapping of one code point. It is Python's on Basic Latin and on the Cyrillic ranges
  U+0400..U+045F and U+048A..U+04BF, which hold every letter of the parser's tables and
  phrases; any other code point is left as it is.
\<close>

definition lower_cp :: "nat \<Rightarrow> nat" where
  "lower_cp c =
     (if 65 \<le> c \<and> c \<le> 90 then c + 32
      else if 0x410 \<le> c \<and> c \<le> 0x42F then c + 32
      else if 0x400 \<le> c \<and> c \<le> 0x40F then c + 80
      else if 0x48A \<le> c \<and> c \<le> 0x4BF \<and> even c then c + 1
      else c)"

definition upper_cp :: "nat \<Rightarrow> nat" where
  "upper_cp c =
     (if 97 \<le> c \<and> c \<le> 122 then c - 32
      else if 0x430 \<le> c \<and> c \<le> 0x44F then c - 32
      else if 0x450 \<le> c \<and> c \<le> 0x45F then c - 80
      else if 0x48A \<le> c \<and> c \<le> 0x4BF \<and> odd c then c - 1
      else c)"

definition lower :: "pystr \<Rightarrow> pystr" where
  "lower s = map lower_cp s"

definition upper :: "pystr \<Rightarrow> pystr" where
  "upper s = map upper_cp s"

text \<open>\<open>str.capitalize()\<close>: the first character upper-cased, all the others lower-cased.\<close>

definition capitalize :: "pystr \<Rightarrow> pystr" where
  "capitalize s = (case s of [] \<Rightarrow> [] | c # cs \<Rightarrow> upper_cp c # lower cs)"

text \<open>\<open>sub in s\<close>: \<open>sub\<close> occurs in \<open>s\<close> as a contiguous substring.\<close>

fun contains :: "pystr \<Rightarrow> pystr \<Rightarrow> bool" where
  "contains sub [] = (sub = [])"
| "contains sub (c # cs) = (prefix sub (c # cs) \<or> contains sub cs)"

text \<open>
  \<open>s.replace(old, new)\<close>: the non-overlapping occurrences of \<open>old\<close>, found from the left,
  are replaced. With an empty \<open>old\<close> Python inserts \<open>new\<close> before every character and at
  the end.
\<close>

function replace_from :: "pystr \<Rightarrow> pystr \<Rightarrow> pystr \<Rightarrow> pystr" where
  "replace_from old new [] = []"
| "replace_from old new (c # cs) =
     (if old \<noteq> [] \<and> prefix old (c # cs)
      then new @ replace_from old new (drop (length old) (c # cs))
      else c # replace_from old new cs)"
  by pat_completeness auto
termination
  by (relation "measure (\<lambda>(old, new, s). length s)") auto

definition replace :: "pystr \<Rightarrow> pystr \<Rightarrow> pystr \<Rightarrow> pystr" where
  "replace old new s =
     (if old = [] then new @ concat (map (\<lambda>c. c # new) s) else replace_from old new s)"

text \<open>\<open>s.split(sep)\<close> for a one-character separator.\<close>

fun split_on :: "nat \<Rightarrow> pystr \<Rightarrow> pystr list" where
  "split_on sep [] = [[]]"
| "split_on sep (c # cs) =
     (if c = sep then [] # split_on sep cs
      else (case split_on sep cs of [] \<Rightarrow> [[c]] | p # ps \<Rightarrow> (c # p) # ps))"

definition is_file :: "nat \<Rightarrow> bool" where
  "is_file c \<longleftrightarrow> 97 \<le> c \<and> c \<le> 104"

definition is_rank :: "nat \<Rightarrow> bool" where
  "is_rank c \<longleftrightarrow> 49 \<le> c \<and> c \<le> 56"

text \<open>\<open>re.findall(r'[a-h][1-8]', s)\<close>: the non-overlapping matches from the left.\<close>

fun findall_squares :: "pystr \<Rightarrow> pystr list" where
  "findall_squares (a # d # rest) =
     (if is_file a \<and> is_rank d then [a, d] # findall_squares rest
      else findall_squares (d # rest))"
| "findall_squares [a] = []"
| "findall_squares [] = []"

section \<open>The rules collaborator\<close>

text \<open>
  The chess rules are not part of the repository: the parser calls the \<open>chess\<close> library.
  Its data (squares, piece types, moves) and the two pure conversions \<open>Move.from_uci\<close> and
  \<open>Move.uci\<close> are written out below; everything that depends on the position (legal moves,
  the algebraic parser, SAN formatting, occupancy, side to move) is a field of the board,
  so that every statement holds for whatever the rules engine answers.
\<close>

datatype error = ValueError | InvalidMoveError | IllegalMoveError | AmbiguousMoveError | IndexError

datatype PieceType = PAWN | KNIGHT | BISHOP | ROOK | QUEEN | KING

record piece =
  piece_type :: PieceType
  color :: bool

text \<open>Squares are the indices 0..63 (\<open>a1 = 0\<close>, \<open>b1 = 1\<close>, ..., \<open>h8 = 63\<close>).\<close>

record move =
  from_square :: nat
  to_square :: nat
  promotion :: "PieceType option"
  drop_piece :: "PieceType option"

definition null_move :: move where
  "null_move = \<lparr>from_square = 0, to_square = 0, promotion = None, drop_piece = None\<rparr>"

text \<open>\<open>Move.__bool__\<close>: only the null move is falsy.\<close>

definition move_bool :: "move \<Rightarrow> bool" where
  "move_bool m \<longleftrightarrow>
     from_square m \<noteq> 0 \<or> to_square m \<noteq> 0 \<or> promotion m \<noteq> None \<or> drop_piece m \<noteq> None"

text \<open>\<open>SQUARE_NAMES.index(name)\<close>, which is \<open>chess.parse_square\<close>, and \<open>SQUARE_NAMES[sq]\<close>.\<close>

definition parse_square :: "pystr \<Rightarrow> error + nat" where
  "parse_square name =
     (case name of
        [f, r] \<Rightarrow> if is_file f \<and> is_rank r then Inr ((r - 49) * 8 + (f - 97)) else Inl ValueError
      | _ \<Rightarrow> Inl ValueError)"

definition square_name :: "nat \<Rightarrow> error + pystr" where
  "square_name sq = (if sq < 64 then Inr [97 + sq mod 8, 49 + sq div 8] else Inl IndexError)"

text \<open>\<open>PIECE_SYMBOLS = [None, "p", "n", "b", "r", "q", "k"]\<close>: lookup and \<open>index\<close>.\<close>

fun symbol_of :: "PieceType \<Rightarrow> nat" where
  "symbol_of PAWN = 112"
| "symbol_of KNIGHT = 110"
| "symbol_of BISHOP = 98"
| "symbol_of ROOK = 114"
| "symbol_of QUEEN = 113"
| "symbol_of KING = 107"

definition piece_symbols_index :: "pystr \<Rightarrow> error + PieceType" where
  "piece_symbols_index s =
     (if s = [112] then Inr PAWN else if s = [110] then Inr KNIGHT
      else if s = [98] then Inr BISHOP else if s = [114] then Inr ROOK
      else if s = [113] then Inr QUEEN else if s = [107] then Inr KING
      else Inl ValueError)"

text \<open>
  \<open>chess.Move.from_uci\<close>: \<open>"0000"\<close> is the null move, \<open>"P@e4"\<close> a drop, otherwise two squares
  and an optional promotion letter; anything else raises.
\<close>

definition from_uci :: "pystr \<Rightarrow> error + move" where
  "from_uci uci =
     (if uci = asc ''0000'' then Inr null_move
      else if length uci = 4 \<and> uci ! 1 = 64 then
        (case piece_symbols_index (lower [uci ! 0]) of
           Inl e \<Rightarrow> Inl InvalidMoveError
         | Inr d \<Rightarrow>
            (case parse_square (drop 2 uci) of
               Inl e \<Rightarrow> Inl InvalidMoveError
             | Inr sq \<Rightarrow> Inr \<lparr>from_square = sq, to_square = sq, promotion = None,
                               drop_piece = Some d\<rparr>))
      else if 4 \<le> length uci \<and> length uci \<le> 5 then
        (case parse_square (take 2 uci) of
           Inl e \<Rightarrow> Inl InvalidMoveError
         | Inr f \<Rightarrow>
            (case parse_square (take 2 (drop 2 uci)) of
               Inl e \<Rightarrow> Inl InvalidMoveError
             | Inr t \<Rightarrow>
                (case (if length uci = 5 then map_sum id Some (piece_symbols_index [uci ! 4])
                       else Inr None) of
                   Inl e \<Rightarrow> Inl InvalidMoveError
                 | Inr p \<Rightarrow>
                    if f = t then Inl InvalidMoveError
                    else Inr \<lparr>from_square = f, to_square = t, promotion = p,
                              drop_piece = None\<rparr>)))
      else Inl InvalidMoveError)"

text \<open>\<open>chess.Move.uci\<close>, the long-algebraic text of a move.\<close>

definition uci :: "move \<Rightarrow> error + pystr" where
  "uci m =
     (case drop_piece m of
        Some d \<Rightarrow>
          (case square_name (to_square m) of
             Inl e \<Rightarrow> Inl e
           | Inr t \<Rightarrow> Inr (upper [symbol_of d] @ [64] @ t))
      | None \<Rightarrow>
          (case promotion m of
             Some p \<Rightarrow>
               (case square_name (from_square m) of
                  Inl e \<Rightarrow> Inl e
                | Inr f \<Rightarrow>
                   (case square_name (to_square m) of
                      Inl e \<Rightarrow> Inl e
                    | Inr t \<Rightarrow> Inr (f @ t @ [symbol_of p])))
           | None \<Rightarrow>
               if move_bool m then
                 (case square_name (from_square m) of
                    Inl e \<Rightarrow> Inl e
                  | Inr f \<Rightarrow>
                     (case square_name (to_square m) of
                        Inl e \<Rightarrow> Inl e
                      | Inr t \<Rightarrow> Inr (f @ t)))
               else Inr (asc ''0000'')))"

text \<open>
  A \<open>chess.Board\<close> as the parser sees it. \<open>legal_moves\<close> is the enumeration of the legal
  moves, in the engine's order; \<open>move in board.legal_moves\<close> is membership in it.
  \<open>parse_san\<close> and \<open>san\<close> raise where the library does.
\<close>

record board =
  legal_moves :: "move list"
  parse_san :: "pystr \<Rightarrow> error + move"
  san :: "move \<Rightarrow> error + pystr"
  piece_at :: "nat \<Rightarrow> piece option"
  turn :: bool

section \<open>The move parser\<close>

text \<open>
  The parser returns a move or \<open>None\<close> and, when a piece and a destination fit several
  legal moves, prints a report. The state it works on is the board it is handed and the
  console; the printed lines are kept structured (the colour codes and the fixed wording
  of the messages are left out).
\<close>

datatype out_line =
  AmbiguousHeader
| CandidateLine pystr pystr
| HintLine pystr pystr pystr

record world =
  position :: board
  stdout :: "out_line list"

text \<open>\<open>self.cyrillic_to_latin\<close>, in the order of the dictionary.\<close>

definition cyrillic_to_latin :: "(pystr \<times> pystr) list" where
  "cyrillic_to_latin =
     [([0x430], asc ''a''), ([0x410], asc ''A''),
      ([0x431], asc ''b''), ([0x411], asc ''B''),
      ([0x441], asc ''c''), ([0x421], asc ''C''),
      ([0x434], asc ''d''), ([0x414], asc ''D''),
      ([0x435], asc ''e''), ([0x415], asc ''E''),
      ([0x444], asc ''f''), ([0x424], asc ''F''),
      ([0x433], asc ''g''), ([0x413], asc ''G''),
      ([0x445], asc ''h''), ([0x425], asc ''H'')]"

definition convert_cyrillic_to_latin :: "pystr \<Rightarrow> pystr" where
  "convert_cyrillic_to_latin text =
     fold (\<lambda>(cyr, lat) result. replace cyr lat result) cyrillic_to_latin text"

text \<open>The castling phrases of \<open>_try_castling_ukrainian\<close>, in the order of the dictionary.\<close>

definition rokirovka :: pystr where
  "rokirovka = [0x440, 0x43E, 0x43A, 0x456, 0x440, 0x43E, 0x432, 0x43A, 0x430]"

definition korotka :: pystr where
  "korotka = [0x43A, 0x43E, 0x440, 0x43E, 0x442, 0x43A, 0x430]"

definition mala :: pystr where
  "mala = [0x43C, 0x430, 0x43B, 0x430]"

definition dovha :: pystr where
  "dovha = [0x434, 0x43E, 0x432, 0x433, 0x430]"

definition velyka :: pystr where
  "velyka = [0x432, 0x435, 0x43B, 0x438, 0x43A, 0x430]"

definition castling_names :: "(pystr \<times> pystr) list" where
  "castling_names =
     [(korotka @ [32] @ rokirovka, asc ''O-O''),
      (rokirovka @ [32] @ korotka, asc ''O-O''),
      (mala @ [32] @ rokirovka, asc ''O-O''),
      (rokirovka, asc ''O-O''),
      (dovha @ [32] @ rokirovka, asc ''O-O-O''),
      (rokirovka @ [32] @ dovha, asc ''O-O-O''),
      (velyka @ [32] @ rokirovka, asc ''O-O-O'')]"

fun castling_loop :: "(pystr \<times> pystr) list \<Rightarrow> pystr \<Rightarrow> board \<Rightarrow> move option" where
  "castling_loop [] move_text_lower b = None"
| "castling_loop ((uk_name, san_notation) # rest) move_text_lower b =
     (if contains uk_name move_text_lower then
        (case parse_san b san_notation of
           Inr m \<Rightarrow> Some m
         | Inl e \<Rightarrow> castling_loop rest move_text_lower b)
      else castling_loop rest move_text_lower b)"

definition try_castling_ukrainian :: "pystr \<Rightarrow> board \<Rightarrow> move option" where
  "try_castling_ukrainian move_text b = castling_loop castling_names (lower move_text) b"

fun standard_loop :: "pystr list \<Rightarrow> board \<Rightarrow> move option" where
  "standard_loop [] b = None"
| "standard_loop (variant # rest) b =
     (case parse_san b variant of
        Inr m \<Rightarrow> if move_bool m then Some m else standard_loop rest b
      | Inl e \<Rightarrow> standard_loop rest b)"

definition try_standard_notation :: "pystr \<Rightarrow> board \<Rightarrow> move option" where
  "try_standard_notation move_text b =
     standard_loop [move_text, capitalize move_text, upper move_text] b"

definition try_uci_notation :: "pystr \<Rightarrow> board \<Rightarrow> move option" where
  "try_uci_notation move_text b =
     (case from_uci move_text of
        Inr m \<Rightarrow> if m \<in> set (legal_moves b) then Some m else None
      | Inl e \<Rightarrow> None)"

definition try_dash_notation :: "pystr \<Rightarrow> board \<Rightarrow> move option" where
  "try_dash_notation move_text b =
     (if 45 \<in> set move_text then
        (let parts = split_on 45 move_text in
         if length parts = 2 then
           (let from_sq = strip (parts ! 0); to_sq = strip (parts ! 1) in
            case from_uci (from_sq @ to_sq) of
              Inr m \<Rightarrow> if m \<in> set (legal_moves b) then Some m else None
            | Inl e \<Rightarrow> None)
         else None)
      else None)"

text \<open>The dictionary \<open>piece_map\<close> of \<open>_find_move_by_piece_and_target\<close>.\<close>

definition piece_map :: "pystr \<Rightarrow> PieceType option" where
  "piece_map s =
     (if s = asc ''P'' then Some PAWN else if s = asc ''N'' then Some KNIGHT
      else if s = asc ''B'' then Some BISHOP else if s = asc ''R'' then Some ROOK
      else if s = asc ''Q'' then Some QUEEN else if s = asc ''K'' then Some KING
      else None)"

text \<open>The test of the scan over the legal moves.\<close>

definition qualifies :: "board \<Rightarrow> PieceType \<Rightarrow> nat \<Rightarrow> move \<Rightarrow> bool" where
  "qualifies b pt to_sq m \<longleftrightarrow>
     to_square m = to_sq \<and>
     (case piece_at b (from_square m) of
        None \<Rightarrow> False
      | Some p \<Rightarrow> piece_type p = pt \<and> color p = turn b)"

text \<open>The lines of the report; \<open>board.san\<close> and \<open>chess.square_name\<close> are not guarded there.\<close>

fun candidate_lines :: "board \<Rightarrow> move list \<Rightarrow> error + out_line list" where
  "candidate_lines b [] = Inr []"
| "candidate_lines b (m # ms) =
     (case san b m of
        Inl e \<Rightarrow> Inl e
      | Inr s \<Rightarrow>
         (case square_name (from_square m) of
            Inl e \<Rightarrow> Inl e
          | Inr from_sq \<Rightarrow>
             (case candidate_lines b ms of
                Inl e \<Rightarrow> Inl e
              | Inr ls \<Rightarrow> Inr (CandidateLine s from_sq # ls))))"

definition hint_line :: "board \<Rightarrow> move \<Rightarrow> pystr \<Rightarrow> error + out_line" where
  "hint_line b m to_square_name =
     (case san b m of
        Inl e \<Rightarrow> Inl e
      | Inr s \<Rightarrow>
         (case square_name (from_square m) of
            Inl e \<Rightarrow> Inl e
          | Inr from_sq \<Rightarrow> Inr (HintLine s from_sq to_square_name)))"

definition find_move_by_piece_and_target ::
  "world \<Rightarrow> pystr \<Rightarrow> pystr \<Rightarrow> error + (move option \<times> world)" where
  "find_move_by_piece_and_target w piece_symbol to_square_name =
     (case piece_map (upper piece_symbol) of
        None \<Rightarrow> Inr (None, w)
      | Some pt \<Rightarrow>
         (case parse_square to_square_name of
            Inl e \<Rightarrow> Inr (None, w)
          | Inr to_sq \<Rightarrow>
             (let possible_moves =
                    filter (qualifies (position w) pt to_sq) (legal_moves (position w)) in
              if length possible_moves = 1 then Inr (Some (possible_moves ! 0), w)
              else if length possible_moves > 1 then
                (case candidate_lines (position w) possible_moves of
                   Inl e \<Rightarrow> Inl e
                 | Inr ls \<Rightarrow>
                    (case hint_line (position w) (possible_moves ! 0) to_square_name of
                       Inl e \<Rightarrow> Inl e
                     | Inr h \<Rightarrow>
                        Inr (None, w\<lparr>stdout := stdout w @ [AmbiguousHeader] @ ls @ [h]\<rparr>)))
              else Inr (None, w))))"

text \<open>
  The search for a piece name: \<open>piece_names\<close> is \<open>config.PIECE_NAMES_UK\<close>, a dictionary
  from names to piece symbols that is not among the sources, so it is a parameter. The
  first name found in the text is cut out of it.
\<close>

fun find_piece_name :: "(pystr \<times> pystr) list \<Rightarrow> pystr \<Rightarrow> pystr option \<times> pystr" where
  "find_piece_name [] move_text = (None, move_text)"
| "find_piece_name ((name, symbol) # rest) move_text =
     (if contains name move_text then (Some symbol, strip (replace name [] move_text))
      else find_piece_name rest move_text)"

text \<open>The filler words: \<open>na\<close> (two letters), \<open>z\<close> and \<open>v\<close>, each replaced by a space.\<close>

definition remove_fillers :: "pystr \<Rightarrow> pystr" where
  "remove_fillers move_text =
     strip (replace [0x432] [32] (replace [0x437] [32] (replace [0x43D, 0x430] [32] move_text)))"

definition try_human_language ::
  "(pystr \<times> pystr) list \<Rightarrow> pystr \<Rightarrow> world \<Rightarrow> error + (move option \<times> world)" where
  "try_human_language piece_names move_text w =
     (let (found, text1) = find_piece_name piece_names move_text;
          piece_sym = (case found of None \<Rightarrow> asc ''P'' | Some symbol \<Rightarrow> symbol);
          squares = findall_squares (remove_fillers text1) in
      if length squares = 1 then find_move_by_piece_and_target w piece_sym (squares ! 0)
      else if length squares = 2 then
        (case from_uci (squares ! 0 @ squares ! 1) of
           Inr m \<Rightarrow> if m \<in> set (legal_moves (position w)) then Inr (Some m, w) else Inr (None, w)
         | Inl e \<Rightarrow> Inr (None, w))
      else Inr (None, w))"

text \<open>
  \<open>parse_move\<close>: the strategies in order; \<open>if move:\<close> lets a falsy (null) move fall through
  to the next one.
\<close>

definition truthy :: "move option \<Rightarrow> bool" where
  "truthy r = (case r of None \<Rightarrow> False | Some m \<Rightarrow> move_bool m)"

definition parse_move ::
  "(pystr \<times> pystr) list \<Rightarrow> pystr \<Rightarrow> world \<Rightarrow> error + (move option \<times> world)" where
  "parse_move piece_names move_text w =
     (let text0 = convert_cyrillic_to_latin (strip move_text);
          r0 = try_castling_ukrainian text0 (position w) in
      if truthy r0 then Inr (r0, w)
      else
        (let r1 = try_standard_notation text0 (position w) in
         if truthy r1 then Inr (r1, w)
         else
           (let text1 = lower text0;
                r2 = try_uci_notation text1 (position w) in
            if truthy r2 then Inr (r2, w)
            else
              (case try_human_language piece_names text1 w of
                 Inl e \<Rightarrow> Inl e
               | Inr (r3, w3) \<Rightarrow>
                  if truthy r3 then Inr (r3, w3)
                  else
                    (let r4 = try_dash_notation text1 (position w3) in
                     if truthy r4 then Inr (r4, w3) else Inr (None, w3))))))"

text \<open>
  What the caller observes, as the three outcomes of the specification: a move; no move
  and a report on the console; no move and nothing printed.
\<close>

datatype outcome = Resolved move | Ambiguous "out_line list" | Unrecognized

definition outcome_of :: "world \<Rightarrow> move option \<times> world \<Rightarrow> outcome" where
  "outcome_of w r =
     (case fst r of
        Some m \<Rightarrow> Resolved m
      | None \<Rightarrow>
         (let printed = drop (length (stdout w)) (stdout (snd r)) in
          if printed = [] then Unrecognized else Ambiguous printed))"

section \<open>Contracts of the rules collaborator\<close>

text \<open>
  What the parser relies on from the rules engine. The report of an ambiguous move formats
  legal moves outside any \<open>try\<close>: formatting must succeed on them. A move the algebraic
  parser returns is legal, or is the null move (which the library returns for \<open>"--"\<close>).
\<close>

definition report_ready :: "board \<Rightarrow> bool" where
  "report_ready b \<longleftrightarrow>
     (\<forall>m \<in> set (legal_moves b). from_square m < 64 \<and> (\<exists>s. san b m = Inr s))"

definition parser_sound :: "board \<Rightarrow> bool" where
  "parser_sound b \<longleftrightarrow>
     (\<forall>s m. parse_san b s = Inr m \<longrightarrow> m \<in> set (legal_moves b) \<or> \<not> move_bool m)"

text \<open>An ordinary move between two different squares of the board.\<close>

definition board_move :: "move \<Rightarrow> bool" where
  "board_move m \<longleftrightarrow>
     from_square m < 64 \<and> to_square m < 64 \<and> from_square m \<noteq> to_square m \<and> drop_piece m = None"

text \<open>A text that \<open>strip\<close> and the transliteration leave alone: printable ASCII.\<close>

definition plain_text :: "pystr \<Rightarrow> bool" where
  "plain_text s \<longleftrightarrow> (\<forall>c \<in> set s. 33 \<le> c \<and> c \<le> 126)"

text \<open>One step of the transliteration table on a code point.\<close>

definition translit :: "nat \<Rightarrow> nat" where
  "translit c = (case map_of cyrillic_to_latin [c] of Some [l] \<Rightarrow> l | _ \<Rightarrow> c)"

text \<open>The squares the natural-language strategy extracts from a lower-cased text.\<close>

definition extracted_squares :: "(pystr \<times> pystr) list \<Rightarrow> pystr \<Rightarrow> pystr list" where
  "extracted_squares piece_names move_text =
     findall_squares (remove_fillers (snd (find_piece_name piece_names move_text)))"

definition no_piece_name :: "(pystr \<times> pystr) list \<Rightarrow> pystr \<Rightarrow> bool" where
  "no_piece_name piece_names move_text \<longleftrightarrow>
     (\<forall>e \<in> set piece_names. \<not> contains (fst e) move_text)"

text \<open>The text the strategies work on, before and after lower-casing.\<close>

definition normalized :: "pystr \<Rightarrow> pystr" where
  "normalized move_text = convert_cyrillic_to_latin (strip move_text)"

section \<open>Sample positions\<close>

text \<open>
  A position given by the table of its legal moves with their SAN texts, in the order of
  the engine's enumeration, by its pieces and by the side to move. Its algebraic parser
  accepts exactly the SAN texts of the table.
\<close>

definition lookup_san :: "(pystr \<times> move) list \<Rightarrow> pystr \<Rightarrow> error + move" where
  "lookup_san tbl s = (case map_of tbl s of Some m \<Rightarrow> Inr m | None \<Rightarrow> Inl IllegalMoveError)"

definition format_san :: "(pystr \<times> move) list \<Rightarrow> move \<Rightarrow> error + pystr" where
  "format_san tbl m =
     (case find (\<lambda>e. snd e = m) tbl of Some e \<Rightarrow> Inr (fst e) | None \<Rightarrow> Inl IllegalMoveError)"

definition snapshot :: "(pystr \<times> move) list \<Rightarrow> (nat \<times> piece) list \<Rightarrow> bool \<Rightarrow> board" where
  "snapshot tbl pieces t =
     \<lparr>legal_moves = map snd tbl, parse_san = lookup_san tbl, san = format_san tbl,
      piece_at = map_of pieces, turn = t\<rparr>"

definition mv :: "nat \<Rightarrow> nat \<Rightarrow> move" where
  "mv f t = \<lparr>from_square = f, to_square = t, promotion = None, drop_piece = None\<rparr>"

definition promo :: "nat \<Rightarrow> nat \<Rightarrow> PieceType \<Rightarrow> move" where
  "promo f t p = \<lparr>from_square = f, to_square = t, promotion = Some p, drop_piece = None\<rparr>"

definition pc :: "PieceType \<Rightarrow> bool \<Rightarrow> piece" where
  "pc p c = \<lparr>piece_type = p, color = c\<rparr>"

definition console :: "board \<Rightarrow> world" where
  "console b = \<lparr>position = b, stdout = []\<rparr>"

text \<open>
  A sample value of the parameter \<open>piece_names\<close>: the six Ukrainian piece names (pishak,
  kin, slon, tura, ferz, korol) with their symbols.
\<close>

definition sample_names :: "(pystr \<times> pystr) list" where
  "sample_names =
     [([0x43F, 0x456, 0x448, 0x430, 0x43A], asc ''P''),
      ([0x43A, 0x456, 0x43D, 0x44C], asc ''N''),
      ([0x441, 0x43B, 0x43E, 0x43D], asc ''B''),
      ([0x442, 0x443, 0x440, 0x430], asc ''R''),
      ([0x444, 0x435, 0x440, 0x437, 0x44C], asc ''Q''),
      ([0x43A, 0x43E, 0x440, 0x43E, 0x43B, 0x44C], asc ''K'')]"

text \<open>
  White: Ke1, Nb1, Nf3. Black: Ke8. White to move; both knights reach d2.
  FEN \<open>4k3/8/8/8/8/5N2/8/1N2K3 w - - 0 1\<close>.
\<close>

definition two_knights :: board where
  "two_knights = snapshot
     [(asc ''Ng5'', mv 21 38), (asc ''Ne5'', mv 21 36), (asc ''Nh4'', mv 21 31),
      (asc ''Nd4'', mv 21 27), (asc ''Nh2'', mv 21 15), (asc ''Nfd2'', mv 21 11),
      (asc ''Ng1'', mv 21 6),
      (asc ''Kf2'', mv 4 13), (asc ''Ke2'', mv 4 12), (asc ''Kd2'', mv 4 11),
      (asc ''Kf1'', mv 4 5), (asc ''Kd1'', mv 4 3),
      (asc ''Nc3'', mv 1 18), (asc ''Na3'', mv 1 16), (asc ''Nbd2'', mv 1 11)]
     [(4, pc KING True), (1, pc KNIGHT True), (21, pc KNIGHT True), (60, pc KING False)]
     True"

text \<open>
  White: Kg1, pawn e7. Black: Ka5. White to move; the pawn promotes on e8.
  FEN \<open>8/4P3/8/k7/8/8/8/6K1 w - - 0 1\<close>.
\<close>

definition promotion_position :: board where
  "promotion_position = snapshot
     [(asc ''Kh2'', mv 6 15), (asc ''Kg2'', mv 6 14), (asc ''Kf2'', mv 6 13),
      (asc ''Kh1'', mv 6 7), (asc ''Kf1'', mv 6 5),
      (asc ''e8=Q'', promo 52 60 QUEEN), (asc ''e8=R'', promo 52 60 ROOK),
      (asc ''e8=B'', promo 52 60 BISHOP), (asc ''e8=N'', promo 52 60 KNIGHT)]
     [(6, pc KING True), (52, pc PAWN True), (32, pc KING False)]
     True"

text \<open>
  White: Kg1, Bd2, pawn b2. Black: Kg8, Nc3. White to move; the bishop and the pawn can
  both capture on c3. FEN \<open>6k1/8/8/8/8/2n5/1P1B4/6K1 w - - 0 1\<close>.
\<close>

definition bishop_and_pawn :: board where
  "bishop_and_pawn = snapshot
     [(asc ''Bh6'', mv 11 47), (asc ''Bg5'', mv 11 38), (asc ''Bf4'', mv 11 29),
      (asc ''Be3'', mv 11 20), (asc ''Bxc3'', mv 11 18), (asc ''Be1'', mv 11 4),
      (asc ''Bc1'', mv 11 2),
      (asc ''Kh2'', mv 6 15), (asc ''Kg2'', mv 6 14), (asc ''Kf2'', mv 6 13),
      (asc ''Kh1'', mv 6 7), (asc ''Kf1'', mv 6 5),
      (asc ''bxc3'', mv 9 18), (asc ''b3'', mv 9 17), (asc ''b4'', mv 9 25)]
     [(6, pc KING True), (11, pc BISHOP True), (9, pc PAWN True),
      (62, pc KING False), (18, pc KNIGHT False)]
     True"

text \<open>
  White: Ke1, Rh1, with the right to castle short. Black: Ke8. White to move.
  FEN \<open>4k3/8/8/8/8/8/8/4K2R w K - 0 1\<close>.
\<close>

definition castling_position :: board where
  "castling_position = snapshot
     [(asc ''Rh8+'', mv 7 63), (asc ''Rh7'', mv 7 55), (asc ''Rh6'', mv 7 47),
      (asc ''Rh5'', mv 7 39), (asc ''Rh4'', mv 7 31), (asc ''Rh3'', mv 7 23),
      (asc ''Rh2'', mv 7 15), (asc ''Rg1'', mv 7 6), (asc ''Rf1'', mv 7 5),
      (asc ''Kf2'', mv 4 13), (asc ''Ke2'', mv 4 12), (asc ''Kd2'', mv 4 11),
      (asc ''Kf1'', mv 4 5), (asc ''Kd1'', mv 4 3),
      (asc ''O-O'', mv 4 6)]
     [(4, pc KING True), (7, pc ROOK True), (60, pc KING False)]
     True"

text \<open>
  White: Kg1, pawn d3. Black: Kg8, pawn e4. White to move; only dxe4 reaches e4.
  FEN \<open>6k1/8/8/8/4p3/3P4/8/6K1 w - - 0 1\<close>.
\<close>

definition pawn_capture :: board where
  "pawn_capture = snapshot
     [(asc ''Kh2'', mv 6 15), (asc ''Kg2'', mv 6 14), (asc ''Kf2'', mv 6 13),
      (asc ''Kh1'', mv 6 7), (asc ''Kf1'', mv 6 5),
      (asc ''dxe4'', mv 19 28), (asc ''d4'', mv 19 27)]
     [(6, pc KING True), (19, pc PAWN True), (62, pc KING False), (28, pc PAWN False)]
     True"

text \<open>White: Kg1, pawn e2. Black: Kg8. White to move. FEN \<open>6k1/8/8/8/8/8/4P3/6K1 w - - 0 1\<close>.\<close>

definition pawn_push :: board where
  "pawn_push = snapshot
     [(asc ''Kh2'', mv 6 15), (asc ''Kg2'', mv 6 14), (asc ''Kf2'', mv 6 13),
      (asc ''Kh1'', mv 6 7), (asc ''Kf1'', mv 6 5),
      (asc ''e3'', mv 12 20), (asc ''e4'', mv 12 28)]
     [(6, pc KING True), (12, pc PAWN True), (62, pc KING False)]
     True"

text \<open>One entry of a table of one-letter replacements, applied to a code point.\<close>

definition step :: "pystr \<times> pystr \<Rightarrow> nat \<Rightarrow> nat" where
  "step e x = (if [x] = fst e then hd (snd e) else x)"

text \<open>The characters a board square is written with.\<close>

definition square_char :: "nat \<Rightarrow> bool" where
  "square_char c \<longleftrightarrow> is_file c \<or> is_rank c"

section \<open>The transliteration\<close>

lemma replace_from_single:
  "replace_from [c] [d] s = map (\<lambda>x. if x = c then d else x) s"
  by (induction s) auto

lemma replace_single: "replace [c] [d] s = map (\<lambda>x. if x = c then d else x) s"
  by (simp add: replace_def replace_from_single)

lemma translit_simps:
  "translit c = (if c = 0x430 then 97 else if c = 0x410 then 65
     else if c = 0x431 then 98 else if c = 0x411 then 66
     else if c = 0x441 then 99 else if c = 0x421 then 67
     else if c = 0x434 then 100 else if c = 0x414 then 68
     else if c = 0x435 then 101 else if c = 0x415 then 69
     else if c = 0x444 then 102 else if c = 0x424 then 70
     else if c = 0x433 then 103 else if c = 0x413 then 71
     else if c = 0x445 then 104 else if c = 0x425 then 72 else c)"
  by (simp add: translit_def cyrillic_to_latin_def asc_def)

lemma fold_replace_map:
  "\<forall>e \<in> set tbl. \<exists>c d. e = ([c], [d]) \<Longrightarrow>
   fold (\<lambda>(cyr, lat) result. replace cyr lat result) tbl s = map (fold step tbl) s"
proof (induction tbl arbitrary: s)
  case Nil
  then show ?case by simp
next
  case (Cons e tbl)
  then obtain c d where e: "e = ([c], [d])" by auto
  have st: "step ([c], [d]) = (\<lambda>x. if x = c then d else x)"
    by (rule ext) (simp add: step_def)
  have "fold (\<lambda>(cyr, lat) result. replace cyr lat result) tbl (map (step e) s)
        = map (fold step tbl) (map (step e) s)"
    using Cons by simp
  then show ?case by (simp add: e replace_single comp_def st)
qed

lemma fold_step_other: "[x] \<notin> fst ` set tbl \<Longrightarrow> fold step tbl x = x"
  by (induction tbl) (auto simp: step_def)

lemma table_shape: "\<forall>e \<in> set cyrillic_to_latin. \<exists>c d. e = ([c], [d])"
  by (simp add: cyrillic_to_latin_def asc_def)

lemma translit_other: "[x] \<notin> fst ` set cyrillic_to_latin \<Longrightarrow> translit x = x"
  by (simp add: translit_simps cyrillic_to_latin_def)

lemma translit_fold: "fold step cyrillic_to_latin x = translit x"
proof (cases "[x] \<in> fst ` set cyrillic_to_latin")
  case False
  then show ?thesis by (simp add: fold_step_other translit_other)
next
  case True
  then have "x \<in> {0x430, 0x410, 0x431, 0x411, 0x441, 0x421, 0x434, 0x414, 0x435, 0x415,
                  0x444, 0x424, 0x433, 0x413, 0x445, 0x425}"
    by (simp add: cyrillic_to_latin_def)
  then consider "x = 0x430" | "x = 0x410" | "x = 0x431" | "x = 0x411" | "x = 0x441"
    | "x = 0x421" | "x = 0x434" | "x = 0x414" | "x = 0x435" | "x = 0x415" | "x = 0x444"
    | "x = 0x424" | "x = 0x433" | "x = 0x413" | "x = 0x445" | "x = 0x425"
    by blast
  then show ?thesis
    by cases (simp_all add: translit_simps cyrillic_to_latin_def asc_def step_def)
qed

lemma convert_map: "convert_cyrillic_to_latin s = map translit s"
  unfolding convert_cyrillic_to_latin_def
  by (simp add: fold_replace_map [OF table_shape] translit_fold cong: map_cong)

lemma isspace_translit: "isspace (translit c) = isspace c"
  by (simp add: translit_simps isspace_def)

lemma translit_idem: "translit (translit c) = translit c"
  by (simp add: translit_simps)

lemma strip_map:
  assumes "\<And>c. isspace (f c) = isspace c"
  shows "strip (map f s) = map f (strip s)"
proof -
  have comp: "isspace \<circ> f = isspace" using assms by (simp add: fun_eq_iff)
  have dw: "\<And>xs. dropWhile isspace (map f xs) = map f (dropWhile isspace xs)"
    by (simp add: dropWhile_map comp)
  show ?thesis
    by (simp add: strip_def dw rev_map)
qed

lemma normalized_convert:
  "normalized (convert_cyrillic_to_latin t) = normalized t"
  by (simp add: normalized_def convert_map strip_map isspace_translit translit_idem)

lemma parse_move_normalized:
  "parse_move names t w =
     (let text0 = normalized t;
          r0 = try_castling_ukrainian text0 (position w) in
      if truthy r0 then Inr (r0, w)
      else
        (let r1 = try_standard_notation text0 (position w) in
         if truthy r1 then Inr (r1, w)
         else
           (let text1 = lower text0;
                r2 = try_uci_notation text1 (position w) in
            if truthy r2 then Inr (r2, w)
            else
              (case try_human_language names text1 w of
                 Inl e \<Rightarrow> Inl e
               | Inr (r3, w3) \<Rightarrow>
                  if truthy r3 then Inr (r3, w3)
                  else
                    (let r4 = try_dash_notation text1 (position w3) in
                     if truthy r4 then Inr (r4, w3) else Inr (None, w3))))))"
  by (simp only: parse_move_def normalized_def)

section \<open>The castling phrases never match\<close>

text \<open>
  Every castling phrase ends in the Cyrillic letter U+0430, and the transliteration, which
  runs first, turns each U+0430 and U+0410 into a Latin letter: no text that reaches
  \<open>_try_castling_ukrainian\<close> contains a phrase.
\<close>

lemma contains_set: "contains sub s \<Longrightarrow> set sub \<subseteq> set s"
proof (induction s)
  case Nil
  then show ?case by simp
next
  case (Cons c cs)
  then show ?case using set_mono_prefix [of sub "c # cs"] by auto
qed

lemma lower_translit_not_a: "lower_cp (translit c) \<noteq> 0x430"
  by (simp add: translit_simps lower_cp_def)

lemma no_cyrillic_a: "0x430 \<notin> set (lower (normalized t))"
  by (auto simp: lower_def normalized_def convert_map lower_translit_not_a)

lemma phrase_absent: "0x430 \<in> set name \<Longrightarrow> \<not> contains name (lower (normalized t))"
  using contains_set no_cyrillic_a by blast

lemma castling_dead: "try_castling_ukrainian (normalized t) b = None"
  by (simp add: try_castling_ukrainian_def castling_names_def phrase_absent
      rokirovka_def korotka_def mala_def dovha_def velyka_def)

section \<open>What each strategy returns\<close>

lemma castling_loop_sound:
  "castling_loop names t b = Some m \<Longrightarrow> \<exists>s. parse_san b s = Inr m"
  by (induction names t b rule: castling_loop.induct) (auto split: if_splits sum.splits)

lemma standard_loop_sound:
  "standard_loop vs b = Some m \<Longrightarrow> (\<exists>s \<in> set vs. parse_san b s = Inr m) \<and> move_bool m"
  by (induction vs b rule: standard_loop.induct) (auto split: if_splits sum.splits)

lemma try_uci_sound: "try_uci_notation t b = Some m \<Longrightarrow> m \<in> set (legal_moves b)"
  by (auto simp: try_uci_notation_def split: sum.splits if_splits)

lemma try_dash_sound: "try_dash_notation t b = Some m \<Longrightarrow> m \<in> set (legal_moves b)"
  by (auto simp: try_dash_notation_def Let_def split: sum.splits if_splits)

lemma find_move_frame:
  "find_move_by_piece_and_target w psym name = Inr (r, w') \<Longrightarrow> position w' = position w"
  by (auto simp: find_move_by_piece_and_target_def Let_def
      split: option.splits sum.splits if_splits)

lemma single_filter_mem: "length (filter P xs) = 1 \<Longrightarrow> filter P xs ! 0 \<in> set xs"
proof -
  assume "length (filter P xs) = 1"
  then have "filter P xs ! 0 \<in> set (filter P xs)"
    using nth_mem [of 0 "filter P xs"] by simp
  then show ?thesis using filter_is_subset [of P xs] by blast
qed

lemma find_move_sound:
  "find_move_by_piece_and_target w psym name = Inr (Some m, w') \<Longrightarrow>
   m \<in> set (legal_moves (position w)) \<and> w' = w"
  using single_filter_mem [of "qualifies (position w) pt sq" "legal_moves (position w)" for pt sq]
  by (auto simp: find_move_by_piece_and_target_def Let_def
      split: option.splits sum.splits if_splits)

lemma try_human_frame:
  "try_human_language names t w = Inr (r, w') \<Longrightarrow> position w' = position w"
  by (auto simp: try_human_language_def Let_def split: prod.splits sum.splits if_splits
      dest: find_move_frame)

lemma try_human_sound:
  "try_human_language names t w = Inr (Some m, w') \<Longrightarrow>
   m \<in> set (legal_moves (position w)) \<and> w' = w"
  by (auto simp: try_human_language_def Let_def split: prod.splits sum.splits if_splits
      dest: find_move_sound)

lemma truthy_Some: "truthy r \<Longrightarrow> \<exists>m. r = Some m \<and> move_bool m"
  by (cases r) (auto simp: truthy_def)

lemma parse_move_Some:
  assumes "parse_move names t w = Inr (Some m, w')"
  shows "move_bool m \<and>
    (try_castling_ukrainian (normalized t) (position w) = Some m \<or>
     try_standard_notation (normalized t) (position w) = Some m \<or>
     try_uci_notation (lower (normalized t)) (position w) = Some m \<or>
     try_human_language names (lower (normalized t)) w = Inr (Some m, w') \<or>
     try_dash_notation (lower (normalized t)) (position w) = Some m)"
  using assms unfolding parse_move_normalized Let_def
  by (auto simp: truthy_def split: if_splits sum.splits prod.splits option.splits
      dest: try_human_frame)

section \<open>Evaluating the sample positions\<close>

lemmas eval_defs =
  parse_move_def try_castling_ukrainian_def castling_names_def try_standard_notation_def
  try_uci_notation_def try_dash_notation_def try_human_language_def
  find_move_by_piece_and_target_def remove_fillers_def hint_line_def qualifies_def
  piece_map_def truthy_def move_bool_def from_uci_def parse_square_def square_name_def
  piece_symbols_index_def null_move_def convert_cyrillic_to_latin_def cyrillic_to_latin_def
  replace_def strip_def lower_def upper_def capitalize_def lower_cp_def upper_cp_def
  isspace_def is_file_def is_rank_def asc_def
  rokirovka_def korotka_def mala_def dovha_def velyka_def
  snapshot_def lookup_san_def format_san_def mv_def promo_def pc_def console_def
  sample_names_def Let_def

lemma parser_sound_snapshot: "parser_sound (snapshot tbl pcs t)"
  by (auto simp: parser_sound_def snapshot_def lookup_san_def split: option.splits
      dest!: map_of_SomeD intro: rev_image_eqI)

lemma report_ready_snapshot:
  "list_all (\<lambda>e. from_square (snd e) < 64) tbl \<Longrightarrow> report_ready (snapshot tbl pcs t)"
proof -
  assume a: "list_all (\<lambda>e. from_square (snd e) < 64) tbl"
  have "\<exists>s. format_san tbl m = Inr s" if "m \<in> snd ` set tbl" for m
  proof -
    from that have "find (\<lambda>e. snd e = m) tbl \<noteq> None"
      by (auto simp: find_None_iff)
    then show ?thesis by (auto simp: format_san_def)
  qed
  then show ?thesis using a
    by (auto simp: report_ready_def snapshot_def list_all_iff)
qed

section \<open>The report and the totality of the resolution\<close>

lemma candidate_lines_ok:
  "\<forall>m \<in> set ms. from_square m < 64 \<and> (\<exists>s. san b m = Inr s) \<Longrightarrow>
   \<exists>ls. candidate_lines b ms = Inr ls \<and>
        list_all2 (\<lambda>l m. \<exists>s f. l = CandidateLine s f \<and> san b m = Inr s \<and>
                           square_name (from_square m) = Inr f) ls ms"
proof (induction ms)
  case Nil
  then show ?case by simp
next
  case (Cons m ms)
  then obtain ls where ls: "candidate_lines b ms = Inr ls"
    "list_all2 (\<lambda>l m. \<exists>s f. l = CandidateLine s f \<and> san b m = Inr s \<and>
                           square_name (from_square m) = Inr f) ls ms"
    by auto
  from Cons.prems obtain s where s: "san b m = Inr s" and f: "from_square m < 64" by auto
  from f have sq: "square_name (from_square m) = Inr [97 + from_square m mod 8, 49 + from_square m div 8]"
    by (simp add: square_name_def)
  show ?case using ls s sq by simp
qed

lemma hint_line_ok:
  "from_square m < 64 \<Longrightarrow> san b m = Inr s \<Longrightarrow> \<exists>h. hint_line b m name = Inr h"
  by (simp add: hint_line_def square_name_def)

lemma qualifying_ready:
  "report_ready b \<Longrightarrow> m \<in> set (filter P (legal_moves b)) \<Longrightarrow>
   from_square m < 64 \<and> (\<exists>s. san b m = Inr s)"
  by (auto simp: report_ready_def)

lemma find_move_report:
  assumes rr: "report_ready (position w)"
    and pm: "piece_map (upper psym) = Some pt"
    and ps: "parse_square name = Inr sq"
    and many: "1 < length (filter (qualifies (position w) pt sq) (legal_moves (position w)))"
  shows "\<exists>ls h. find_move_by_piece_and_target w psym name =
            Inr (None, w\<lparr>stdout := stdout w @ [AmbiguousHeader] @ ls @ [h]\<rparr>) \<and>
          list_all2 (\<lambda>l m. \<exists>s f. l = CandidateLine s f \<and> san (position w) m = Inr s \<and>
                           square_name (from_square m) = Inr f) ls
            (filter (qualifies (position w) pt sq) (legal_moves (position w)))"
proof -
  let ?b = "position w"
  let ?q = "filter (qualifies ?b pt sq) (legal_moves ?b)"
  have all: "\<forall>m \<in> set ?q. from_square m < 64 \<and> (\<exists>s. san ?b m = Inr s)"
    using qualifying_ready [OF rr] by blast
  from candidate_lines_ok [OF all] obtain ls where ls: "candidate_lines ?b ?q = Inr ls"
    "list_all2 (\<lambda>l m. \<exists>s f. l = CandidateLine s f \<and> san ?b m = Inr s \<and>
                           square_name (from_square m) = Inr f) ls ?q"
    by blast
  from many have "0 < length ?q" by linarith
  then have "?q ! 0 \<in> set ?q" by (rule nth_mem)
  with all obtain s where "from_square (?q ! 0) < 64" "san ?b (?q ! 0) = Inr s" by blast
  from hint_line_ok [OF this] obtain h where h: "hint_line ?b (?q ! 0) name = Inr h" by blast
  have "find_move_by_piece_and_target w psym name =
            Inr (None, w\<lparr>stdout := stdout w @ [AmbiguousHeader] @ ls @ [h]\<rparr>)"
    using many by (simp add: find_move_by_piece_and_target_def pm ps Let_def ls h)
  with ls(2) show ?thesis by blast
qed

lemma find_move_total:
  assumes rr: "report_ready (position w)"
  shows "\<exists>r ls. find_move_by_piece_and_target w psym name = Inr (r, w\<lparr>stdout := stdout w @ ls\<rparr>) \<and>
           (r \<noteq> None \<longrightarrow> ls = [])"
proof (cases "piece_map (upper psym)")
  case None
  then have "find_move_by_piece_and_target w psym name = Inr (None, w\<lparr>stdout := stdout w @ []\<rparr>)"
    by (simp add: find_move_by_piece_and_target_def)
  then show ?thesis by blast
next
  case (Some pt)
  show ?thesis
  proof (cases "parse_square name")
    case (Inl e)
    then have "find_move_by_piece_and_target w psym name = Inr (None, w\<lparr>stdout := stdout w @ []\<rparr>)"
      by (simp add: find_move_by_piece_and_target_def Some)
    then show ?thesis by blast
  next
    case (Inr sq)
    let ?q = "filter (qualifies (position w) pt sq) (legal_moves (position w))"
    consider "length ?q = 1" | "1 < length ?q" | "length ?q = 0" by linarith
    then show ?thesis
    proof cases
      case 1
      then have "find_move_by_piece_and_target w psym name = Inr (Some (?q ! 0), w\<lparr>stdout := stdout w @ []\<rparr>)"
        by (simp add: find_move_by_piece_and_target_def Some Inr Let_def)
      then show ?thesis by blast
    next
      case 2
      from find_move_report [OF rr Some Inr 2] show ?thesis by auto
    next
      case 3
      then have "find_move_by_piece_and_target w psym name = Inr (None, w\<lparr>stdout := stdout w @ []\<rparr>)"
        by (simp add: find_move_by_piece_and_target_def Some Inr Let_def)
      then show ?thesis by blast
    qed
  qed
qed

lemma try_human_total:
  assumes rr: "report_ready (position w)"
  shows "\<exists>r ls. try_human_language names t w = Inr (r, w\<lparr>stdout := stdout w @ ls\<rparr>) \<and>
           (r \<noteq> None \<longrightarrow> ls = [])"
proof -
  obtain found text1 where fp: "find_piece_name names t = (found, text1)" by fastforce
  let ?sym = "case found of None \<Rightarrow> asc ''P'' | Some symbol \<Rightarrow> symbol"
  let ?sqs = "findall_squares (remove_fillers text1)"
  have w0: "w\<lparr>stdout := stdout w @ []\<rparr> = w" by simp
  consider "length ?sqs = 1" | "length ?sqs = 2" | "length ?sqs \<noteq> 1 \<and> length ?sqs \<noteq> 2" by blast
  then show ?thesis
  proof cases
    case 1
    then have "try_human_language names t w = find_move_by_piece_and_target w ?sym (?sqs ! 0)"
      by (simp add: try_human_language_def fp Let_def)
    then show ?thesis using find_move_total [OF rr] by simp
  next
    case 2
    then have "try_human_language names t w = Inr (None, w) \<or>
               (\<exists>m. try_human_language names t w = Inr (Some m, w))"
      by (auto simp: try_human_language_def fp Let_def split: sum.splits)
    then show ?thesis using w0 by metis
  next
    case 3
    then have "try_human_language names t w = Inr (None, w)"
      by (simp add: try_human_language_def fp Let_def)
    then show ?thesis using w0 by metis
  qed
qed

lemma parse_move_total:
  assumes rr: "report_ready (position w)"
  shows "\<exists>r ls. parse_move names t w = Inr (r, w\<lparr>stdout := stdout w @ ls\<rparr>)"
proof -
  have w0: "w\<lparr>stdout := stdout w @ []\<rparr> = w" by simp
  from try_human_total [OF rr] obtain r3 ls where
    h: "try_human_language names (lower (normalized t)) w = Inr (r3, w\<lparr>stdout := stdout w @ ls\<rparr>)"
    by blast
  have "parse_move names t w = Inr (try_castling_ukrainian (normalized t) (position w), w) \<or>
        parse_move names t w = Inr (try_standard_notation (normalized t) (position w), w) \<or>
        parse_move names t w = Inr (try_uci_notation (lower (normalized t)) (position w), w) \<or>
        parse_move names t w = Inr (r3, w\<lparr>stdout := stdout w @ ls\<rparr>) \<or>
        parse_move names t w = Inr (try_dash_notation (lower (normalized t)) (position w),
           w\<lparr>stdout := stdout w @ ls\<rparr>) \<or>
        parse_move names t w = Inr (None, w\<lparr>stdout := stdout w @ ls\<rparr>)"
    unfolding parse_move_normalized Let_def by (simp add: h)
  then show ?thesis using w0 by metis
qed

lemma standard_loop_raises:
  "\<forall>v \<in> set vs. isl (parse_san b v) \<Longrightarrow> standard_loop vs b = None"
  by (induction vs b rule: standard_loop.induct) (auto split: sum.splits)

lemma two_knights_ready: "report_ready (position (console two_knights))"
  by (simp add: console_def two_knights_def report_ready_snapshot mv_def)

section \<open>Texts that the normalisation leaves alone\<close>

lemma plain_not_space: "plain_text s \<Longrightarrow> c \<in> set s \<Longrightarrow> \<not> isspace c"
  by (auto simp: plain_text_def isspace_def)

lemma strip_plain: "plain_text s \<Longrightarrow> strip s = s"
proof -
  assume p: "plain_text s"
  have 1: "dropWhile isspace s = s"
    using p by (cases s) (auto dest: plain_not_space)
  have 2: "dropWhile isspace (rev s) = rev s"
    using p by (cases "rev s") (auto dest: plain_not_space simp: rev_eq_Cons_iff)
  show ?thesis by (simp add: strip_def 1 2)
qed

lemma translit_plain: "c \<le> 126 \<Longrightarrow> translit c = c"
  by (simp add: translit_simps)

lemma normalized_plain: "plain_text s \<Longrightarrow> normalized s = s"
  by (simp add: normalized_def strip_plain convert_map map_idI translit_plain plain_text_def)

lemma truthy_None: "\<not> truthy None"
  by (simp add: truthy_def)

lemma truthy_Some_iff: "truthy (Some m) = move_bool m"
  by (simp add: truthy_def)

lemma parse_move_standard:
  assumes "try_standard_notation (normalized v) (position w) = Some m" and "move_bool m"
  shows "parse_move names v w = Inr (Some m, w)"
  unfolding parse_move_normalized Let_def
  by (simp add: castling_dead truthy_None assms truthy_Some_iff)

lemma standard_first:
  "parse_san b s = Inr m \<Longrightarrow> move_bool m \<Longrightarrow> try_standard_notation s b = Some m"
  by (simp add: try_standard_notation_def)

section \<open>The long-algebraic text of a move\<close>

lemma parse_square_name:
  "sq < 64 \<Longrightarrow> parse_square [97 + sq mod 8, 49 + sq div 8] = Inr sq"
  by (simp add: parse_square_def is_file_def is_rank_def) arith

lemma symbol_index: "piece_symbols_index [symbol_of p] = Inr p"
  by (cases p) (simp_all add: piece_symbols_index_def)

lemma symbol_plain: "33 \<le> symbol_of p \<and> symbol_of p \<le> 126 \<and> lower_cp (symbol_of p) = symbol_of p"
  by (cases p) (simp_all add: lower_cp_def)

lemma board_move_truthy: "board_move m \<Longrightarrow> move_bool m"
  by (auto simp: board_move_def move_bool_def)

lemma uci_text:
  assumes "board_move m"
  shows "uci m = Inr ([97 + from_square m mod 8, 49 + from_square m div 8,
                       97 + to_square m mod 8, 49 + to_square m div 8] @
                      (case promotion m of None \<Rightarrow> [] | Some p \<Rightarrow> [symbol_of p]))"
  using assms board_move_truthy [OF assms]
  by (simp add: uci_def board_move_def square_name_def split: option.splits)

lemma from_uci_text:
  assumes "board_move m"
  shows "from_uci ([97 + from_square m mod 8, 49 + from_square m div 8,
                       97 + to_square m mod 8, 49 + to_square m div 8] @
                      (case promotion m of None \<Rightarrow> [] | Some p \<Rightarrow> [symbol_of p])) = Inr m"
proof -
  have f: "from_square m < 64" and t: "to_square m < 64"
    and ne: "from_square m \<noteq> to_square m" and d: "drop_piece m = None"
    using assms by (simp_all add: board_move_def)
  have r: "49 + from_square m div 8 \<noteq> 64" using f by arith
  show ?thesis
  proof (cases "promotion m")
    case None
    then show ?thesis
      using ne d r by (simp add: from_uci_def asc_def parse_square_name [OF f] parse_square_name [OF t])
  next
    case (Some p)
    then show ?thesis
      using ne d by (simp add: from_uci_def asc_def parse_square_name [OF f] parse_square_name [OF t]
          symbol_index)
  qed
qed

lemma uci_text_plain:
  assumes "board_move m"
  shows "plain_text ([97 + from_square m mod 8, 49 + from_square m div 8,
                       97 + to_square m mod 8, 49 + to_square m div 8] @
                      (case promotion m of None \<Rightarrow> [] | Some p \<Rightarrow> [symbol_of p]))"
    and "lower ([97 + from_square m mod 8, 49 + from_square m div 8,
                       97 + to_square m mod 8, 49 + to_square m div 8] @
                      (case promotion m of None \<Rightarrow> [] | Some p \<Rightarrow> [symbol_of p])) =
         [97 + from_square m mod 8, 49 + from_square m div 8,
                       97 + to_square m mod 8, 49 + to_square m div 8] @
                      (case promotion m of None \<Rightarrow> [] | Some p \<Rightarrow> [symbol_of p])"
proof -
  have f: "from_square m < 64" and t: "to_square m < 64"
    using assms by (simp_all add: board_move_def)
  have b: "from_square m div 8 \<le> 7" "to_square m div 8 \<le> 7" "from_square m mod 8 \<le> 7"
    "to_square m mod 8 \<le> 7"
    using f t by arith+
  show "plain_text ([97 + from_square m mod 8, 49 + from_square m div 8,
                       97 + to_square m mod 8, 49 + to_square m div 8] @
                      (case promotion m of None \<Rightarrow> [] | Some p \<Rightarrow> [symbol_of p]))"
    using b symbol_plain by (auto simp: plain_text_def split: option.splits)
  show "lower ([97 + from_square m mod 8, 49 + from_square m div 8,
                       97 + to_square m mod 8, 49 + to_square m div 8] @
                      (case promotion m of None \<Rightarrow> [] | Some p \<Rightarrow> [symbol_of p])) =
         [97 + from_square m mod 8, 49 + from_square m div 8,
                       97 + to_square m mod 8, 49 + to_square m div 8] @
                      (case promotion m of None \<Rightarrow> [] | Some p \<Rightarrow> [symbol_of p])"
    using b symbol_plain by (auto simp: lower_def lower_cp_def split: option.splits)
qed

lemma castling_plain: "plain_text u \<Longrightarrow> try_castling_ukrainian u b = None"
  using castling_dead [of u b] by (simp add: normalized_plain)

section \<open>A lone square name\<close>

lemma parse_square_shape:
  "parse_square s = Inr sq \<Longrightarrow> \<exists>f r. s = [f, r] \<and> is_file f \<and> is_rank r"
  by (auto simp: parse_square_def split: list.splits if_splits)

lemma find_piece_name_none:
  "no_piece_name names t \<Longrightarrow> find_piece_name names t = (None, t)"
  by (induction names) (auto simp: no_piece_name_def)

lemma square_text:
  assumes "is_file f" and "is_rank r"
  shows "plain_text [f, r]" and "lower [f, r] = [f, r]" and "remove_fillers [f, r] = [f, r]"
    and "findall_squares [f, r] = [[f, r]]" and "isl (from_uci [f, r])"
proof -
  have b: "97 \<le> f" "f \<le> 104" "49 \<le> r" "r \<le> 56"
    using assms by (simp_all add: is_file_def is_rank_def)
  show p: "plain_text [f, r]" using b by (simp add: plain_text_def)
  show "lower [f, r] = [f, r]" using b by (simp add: lower_def lower_cp_def)
  have "replace [0x432] [32] (replace [0x437] [32] (replace [0x43D, 0x430] [32] [f, r])) = [f, r]"
    using b by (simp add: replace_def)
  then show "remove_fillers [f, r] = [f, r]"
    by (simp add: remove_fillers_def strip_plain [OF p])
  show "findall_squares [f, r] = [[f, r]]" using assms by simp
  show "isl (from_uci [f, r])" by (simp add: from_uci_def asc_def)
qed

section \<open>Counting the characters of squares\<close>

lemma findall_count: "2 * length (findall_squares s) \<le> length (filter square_char s)"
  by (induction s rule: findall_squares.induct) (auto simp: square_char_def)

lemma filter_dropWhile:
  "(\<And>x. Q x \<Longrightarrow> \<not> P x) \<Longrightarrow> filter P (dropWhile Q xs) = filter P xs"
  by (induction xs) auto

lemma space_not_square: "isspace c \<Longrightarrow> \<not> square_char c"
  by (auto simp: isspace_def square_char_def is_file_def is_rank_def)

lemma strip_count: "filter square_char (strip s) = filter square_char s"
proof -
  have "filter square_char (rev (dropWhile isspace (rev (dropWhile isspace s)))) =
        rev (filter square_char (dropWhile isspace (rev (dropWhile isspace s))))"
    by (simp add: rev_filter)
  also have "\<dots> = rev (filter square_char (rev (dropWhile isspace s)))"
    by (simp add: filter_dropWhile space_not_square)
  also have "\<dots> = filter square_char (dropWhile isspace s)"
    by (simp add: rev_filter [symmetric])
  also have "\<dots> = filter square_char s"
    by (simp add: filter_dropWhile space_not_square)
  finally show ?thesis by (simp add: strip_def)
qed

lemma replace_from_count:
  "filter square_char new = [] \<Longrightarrow>
   length (filter square_char (replace_from old new s)) \<le> length (filter square_char s)"
proof (induction old new s rule: replace_from.induct)
  case (1 old new)
  then show ?case by simp
next
  case (2 old new c cs)
  show ?case
  proof (cases "old \<noteq> [] \<and> prefix old (c # cs)")
    case True
    then obtain rest where rest: "c # cs = old @ rest" by (auto simp: prefix_def)
    then have d: "drop (length old) (c # cs) = rest" by simp
    have "length (filter square_char (replace_from old new rest)) \<le> length (filter square_char rest)"
      using 2(1) [OF True] 2(3) d by simp
    also have "\<dots> \<le> length (filter square_char (c # cs))"
      unfolding rest by simp
    finally show ?thesis using True 2(3) d by simp
  next
    case False
    then show ?thesis using 2(2) [OF False] 2(3) by auto
  qed
qed

lemma replace_count:
  "old \<noteq> [] \<Longrightarrow> filter square_char new = [] \<Longrightarrow>
   length (filter square_char (replace old new s)) \<le> length (filter square_char s)"
  by (simp add: replace_def replace_from_count)

lemma remove_fillers_count:
  "length (filter square_char (remove_fillers s)) \<le> length (filter square_char s)"
proof -
  have sp: "filter square_char [32] = []"
    by (simp add: square_char_def is_file_def is_rank_def)
  have "length (filter square_char (remove_fillers s)) =
        length (filter square_char (replace [0x432] [32] (replace [0x437] [32]
           (replace [0x43D, 0x430] [32] s))))"
    by (simp add: remove_fillers_def strip_count)
  also have "\<dots> \<le> length (filter square_char (replace [0x437] [32]
           (replace [0x43D, 0x430] [32] s)))"
    by (rule replace_count [OF _ sp]) simp
  also have "\<dots> \<le> length (filter square_char (replace [0x43D, 0x430] [32] s))"
    by (rule replace_count [OF _ sp]) simp
  also have "\<dots> \<le> length (filter square_char s)"
    by (rule replace_count [OF _ sp]) simp
  finally show ?thesis .
qed

lemma split_on_count:
  "\<not> P sep \<Longrightarrow> filter P (concat (split_on sep s)) = filter P s"
  by (induction s) (auto split: list.splits)

lemma from_uci_long: "6 \<le> length u \<Longrightarrow> isl (from_uci u)"
  by (auto simp: from_uci_def asc_def)

lemma length_filter_strip:
  "length (filter square_char p) \<le> length (strip p)"
proof -
  have "length (filter square_char p) = length (filter square_char (strip p))"
    by (simp add: strip_count)
  then show ?thesis by (simp add: length_filter_le)
qed

lemma dash_long:
  assumes "6 \<le> length (filter square_char x)"
  shows "try_dash_notation x b = None"
proof (cases "45 \<in> set x \<and> length (split_on 45 x) = 2")
  case False
  then show ?thesis by (auto simp: try_dash_notation_def Let_def)
next
  case True
  then obtain p0 p1 where sp: "split_on 45 x = [p0, p1]"
    by (auto simp: length_Suc_conv numeral_2_eq_2)
  have nd: "\<not> square_char 45" by (simp add: square_char_def is_file_def is_rank_def)
  have "filter square_char (concat (split_on 45 x)) = filter square_char x"
    using nd by (rule split_on_count)
  then have "filter square_char p0 @ filter square_char p1 = filter square_char x"
    by (simp add: sp)
  then have "length (filter square_char p0 @ filter square_char p1) =
             length (filter square_char x)"
    by (rule arg_cong)
  then have "length (filter square_char p0) + length (filter square_char p1) =
             length (filter square_char x)"
    by simp
  then have "6 \<le> length (strip p0 @ strip p1)"
    using assms length_filter_strip [of p0] length_filter_strip [of p1] by simp
  then have "isl (from_uci (strip p0 @ strip p1))" by (rule from_uci_long)
  then show ?thesis
    by (auto simp: try_dash_notation_def Let_def sp split: sum.splits)
qed

lemmas text_defs =
  normalized_def convert_cyrillic_to_latin_def cyrillic_to_latin_def replace_def strip_def
  lower_def upper_def capitalize_def lower_cp_def upper_cp_def isspace_def asc_def

section \<open>The claims\<close>

text \<open>
  C1. A token that is a castling phrase is meant to be handed to the algebraic parser as
  \<open>O-O\<close> or \<open>O-O-O\<close>. The code does not do that: the transliteration runs first and turns the
  Cyrillic letter U+0430, with which every phrase of the dictionary ends, into the Latin
  \<open>a\<close>, so no phrase is ever found in the text (although each phrase occurs in its own
  lower-cased text). With White to move, Ke1 and Rh1 and the right to castle, the parser
  reads \<open>O-O\<close> as the legal move e1g1, yet the phrase for short castling resolves to no move.
\<close>

theorem castling_phrase_unrecognized:
  "parse_san castling_position (asc ''O-O'') = Inr (mv 4 6) \<and>
   mv 4 6 \<in> set (legal_moves castling_position) \<and>
   contains (korotka @ [32] @ rokirovka) (lower (korotka @ [32] @ rokirovka)) \<and>
   parse_move sample_names (korotka @ [32] @ rokirovka) (console castling_position) =
     Inr (None, console castling_position) \<and>
   try_castling_ukrainian (convert_cyrillic_to_latin (strip t)) b = None"
proof -
  have a: "parse_san castling_position (asc ''O-O'') = Inr (mv 4 6)"
    by (simp add: castling_position_def snapshot_def lookup_san_def asc_def)
  have b: "mv 4 6 \<in> set (legal_moves castling_position)"
    by (simp add: castling_position_def snapshot_def)
  have c: "contains (korotka @ [32] @ rokirovka) (lower (korotka @ [32] @ rokirovka))"
    by (simp add: korotka_def rokirovka_def lower_def lower_cp_def)
  have d: "parse_move sample_names (korotka @ [32] @ rokirovka) (console castling_position) =
     Inr (None, console castling_position)"
    by (simp add: eval_defs castling_position_def)
  have e: "try_castling_ukrainian (convert_cyrillic_to_latin (strip t)) b = None"
    using castling_dead [of t b] by (simp only: normalized_def)
  from a b c d e show ?thesis by blast
qed

text \<open>
  C2. The search by piece type and destination: a legal move qualifies exactly when its
  destination is the target and the piece on its origin square has the requested type and
  the colour of the side to move. No qualifying move gives no move and no report; exactly
  one gives that move; several give no move and a report that lists every qualifying move
  with its SAN text and its origin square, in the order of the enumeration of the legal
  moves. With the knights on f3 and b1 both reaching d2 the report has the two candidates
  from f3 and from b1.
\<close>

theorem piece_and_target_disambiguation:
  assumes rr: "report_ready (position w)"
    and pm: "piece_map (upper psym) = Some pt"
    and ps: "parse_square name = Inr sq"
  shows "let b = position w; q = filter (qualifies b pt sq) (legal_moves b) in
     (\<forall>m. qualifies b pt sq m \<longleftrightarrow>
        to_square m = sq \<and>
        (\<exists>p. piece_at b (from_square m) = Some p \<and> piece_type p = pt \<and> color p = turn b)) \<and>
     (q = [] \<longrightarrow> find_move_by_piece_and_target w psym name = Inr (None, w)) \<and>
     (\<forall>m. q = [m] \<longrightarrow> find_move_by_piece_and_target w psym name = Inr (Some m, w)) \<and>
     (1 < length q \<longrightarrow>
        (\<exists>ls h. find_move_by_piece_and_target w psym name =
            Inr (None, w\<lparr>stdout := stdout w @ [AmbiguousHeader] @ ls @ [h]\<rparr>) \<and>
          list_all2 (\<lambda>l m. \<exists>s f. l = CandidateLine s f \<and> san b m = Inr s \<and>
                           square_name (from_square m) = Inr f) ls q))"
proof -
  let ?b = "position w"
  let ?q = "filter (qualifies ?b pt sq) (legal_moves ?b)"
  have c1: "\<forall>m. qualifies ?b pt sq m \<longleftrightarrow>
        to_square m = sq \<and>
        (\<exists>p. piece_at ?b (from_square m) = Some p \<and> piece_type p = pt \<and> color p = turn ?b)"
    by (auto simp: qualifies_def split: option.splits)
  have c2: "?q = [] \<longrightarrow> find_move_by_piece_and_target w psym name = Inr (None, w)"
    by (simp add: find_move_by_piece_and_target_def pm ps Let_def)
  have c3: "\<forall>m. ?q = [m] \<longrightarrow> find_move_by_piece_and_target w psym name = Inr (Some m, w)"
    by (simp add: find_move_by_piece_and_target_def pm ps Let_def)
  have c4: "1 < length ?q \<longrightarrow>
        (\<exists>ls h. find_move_by_piece_and_target w psym name =
            Inr (None, w\<lparr>stdout := stdout w @ [AmbiguousHeader] @ ls @ [h]\<rparr>) \<and>
          list_all2 (\<lambda>l m. \<exists>s f. l = CandidateLine s f \<and> san ?b m = Inr s \<and>
                           square_name (from_square m) = Inr f) ls ?q)"
    using find_move_report [OF rr pm ps] by blast
  from c1 c2 c3 c4 show ?thesis unfolding Let_def by blast
qed

theorem piece_and_target_disambiguation_witness:
  "report_ready (position (console two_knights)) \<and>
   piece_map (upper (asc ''N'')) = Some KNIGHT \<and>
   parse_square (asc ''d2'') = Inr 11 \<and>
   filter (qualifies two_knights KNIGHT 11) (legal_moves two_knights) = [mv 21 11, mv 1 11] \<and>
   (\<exists>ls h. find_move_by_piece_and_target (console two_knights) (asc ''N'') (asc ''d2'') =
       Inr (None, (console two_knights)\<lparr>stdout := [AmbiguousHeader] @ ls @ [h]\<rparr>) \<and>
     list_all2 (\<lambda>l m. \<exists>s f. l = CandidateLine s f \<and> san two_knights m = Inr s \<and>
                           square_name (from_square m) = Inr f) ls [mv 21 11, mv 1 11]) \<and>
   square_name 21 = Inr (asc ''f3'') \<and> square_name 1 = Inr (asc ''b1'')"
proof -
  have h1: "report_ready (position (console two_knights))" by (rule two_knights_ready)
  have h2: "piece_map (upper (asc ''N'')) = Some KNIGHT"
    by (simp add: piece_map_def upper_def upper_cp_def asc_def)
  have h3: "parse_square (asc ''d2'') = Inr 11"
    by (simp add: parse_square_def is_file_def is_rank_def asc_def)
  have q: "filter (qualifies two_knights KNIGHT 11) (legal_moves two_knights) = [mv 21 11, mv 1 11]"
    by (simp add: two_knights_def snapshot_def qualifies_def mv_def pc_def)
  have n: "square_name 21 = Inr (asc ''f3'') \<and> square_name 1 = Inr (asc ''b1'')"
    by (simp add: square_name_def asc_def)
  have p: "position (console two_knights) = two_knights" "stdout (console two_knights) = []"
    by (simp_all add: console_def)
  from piece_and_target_disambiguation [OF h1 h2 h3]
  have "\<exists>ls h. find_move_by_piece_and_target (console two_knights) (asc ''N'') (asc ''d2'') =
       Inr (None, (console two_knights)\<lparr>stdout := [AmbiguousHeader] @ ls @ [h]\<rparr>) \<and>
     list_all2 (\<lambda>l m. \<exists>s f. l = CandidateLine s f \<and> san two_knights m = Inr s \<and>
                           square_name (from_square m) = Inr f) ls [mv 21 11, mv 1 11]"
    unfolding Let_def p q by simp
  with h1 h2 h3 q n show ?thesis by blast
qed

text \<open>
  C3. For a legal move whose SAN text the algebraic parser reads back as that move,
  resolving the SAN text as written returns exactly the move. A letter-case variant of it
  resolves to the move when the first of the variant, the variant capitalized and the
  variant upper-cased that the parser accepts is read as the move. It does not hold for
  every variant: in the position of \<open>bishop_and_pawn\<close> the lower-cased text of the bishop
  capture \<open>Bxc3\<close> is the SAN text of the pawn capture \<open>bxc3\<close>, and resolves to the pawn's move.
\<close>

theorem san_roundtrip:
  assumes "m \<in> set (legal_moves (position w))" and "move_bool m"
  shows "(san (position w) m = Inr s \<and> plain_text s \<and> parse_san (position w) s = Inr m \<longrightarrow>
            parse_move names s w = Inr (Some m, w)) \<and>
         (plain_text v \<and> try_standard_notation v (position w) = Some m \<longrightarrow>
            parse_move names v w = Inr (Some m, w))"
proof -
  have a: "parse_move names s w = Inr (Some m, w)"
    if "plain_text s" "parse_san (position w) s = Inr m"
    using that assms(2) by (simp add: parse_move_standard normalized_plain standard_first)
  have b: "parse_move names v w = Inr (Some m, w)"
    if "plain_text v" "try_standard_notation v (position w) = Some m"
    using that assms(2) by (simp add: parse_move_standard normalized_plain)
  from a b show ?thesis by blast
qed

theorem san_roundtrip_witness:
  "mv 11 18 \<in> set (legal_moves (position (console bishop_and_pawn))) \<and>
   move_bool (mv 11 18) \<and>
   san (position (console bishop_and_pawn)) (mv 11 18) = Inr (asc ''Bxc3'') \<and>
   plain_text (asc ''Bxc3'') \<and>
   parse_san (position (console bishop_and_pawn)) (asc ''Bxc3'') = Inr (mv 11 18) \<and>
   parse_move sample_names (asc ''Bxc3'') (console bishop_and_pawn) =
     Inr (Some (mv 11 18), console bishop_and_pawn) \<and>
   plain_text (asc ''BXC3'') \<and>
   try_standard_notation (asc ''BXC3'') (position (console bishop_and_pawn)) = Some (mv 11 18) \<and>
   parse_move sample_names (asc ''BXC3'') (console bishop_and_pawn) =
     Inr (Some (mv 11 18), console bishop_and_pawn)"
proof -
  have h1: "mv 11 18 \<in> set (legal_moves (position (console bishop_and_pawn)))"
    by (simp add: console_def bishop_and_pawn_def snapshot_def)
  have h2: "move_bool (mv 11 18)" by (simp add: move_bool_def mv_def)
  have h3: "san (position (console bishop_and_pawn)) (mv 11 18) = Inr (asc ''Bxc3'')"
    by (simp add: console_def bishop_and_pawn_def snapshot_def format_san_def mv_def)
  have h4: "plain_text (asc ''Bxc3'')" "plain_text (asc ''BXC3'')"
    by (simp_all add: plain_text_def asc_def)
  have h5: "parse_san (position (console bishop_and_pawn)) (asc ''Bxc3'') = Inr (mv 11 18)"
    by (simp add: console_def bishop_and_pawn_def snapshot_def lookup_san_def asc_def)
  have h6: "try_standard_notation (asc ''BXC3'') (position (console bishop_and_pawn)) = Some (mv 11 18)"
    by (simp add: try_standard_notation_def console_def bishop_and_pawn_def snapshot_def
        lookup_san_def asc_def capitalize_def upper_def lower_def upper_cp_def lower_cp_def
        move_bool_def mv_def)
  from san_roundtrip [OF h1 h2, of "asc ''Bxc3''" sample_names "asc ''BXC3''"] h1 h2 h3 h4 h5 h6
  show ?thesis by blast
qed

theorem san_case_variant_counterexample:
  "mv 11 18 \<in> set (legal_moves bishop_and_pawn) \<and>
   san bishop_and_pawn (mv 11 18) = Inr (asc ''Bxc3'') \<and>
   lower (asc ''Bxc3'') = asc ''bxc3'' \<and>
   parse_move sample_names (asc ''bxc3'') (console bishop_and_pawn) =
     Inr (Some (mv 9 18), console bishop_and_pawn) \<and>
   mv 9 18 \<noteq> mv 11 18"
proof -
  have a: "mv 11 18 \<in> set (legal_moves bishop_and_pawn)"
    by (simp add: bishop_and_pawn_def snapshot_def)
  have b: "san bishop_and_pawn (mv 11 18) = Inr (asc ''Bxc3'')"
    by (simp add: bishop_and_pawn_def snapshot_def format_san_def mv_def)
  have c: "lower (asc ''Bxc3'') = asc ''bxc3''"
    by (simp add: lower_def lower_cp_def asc_def)
  have d: "parse_move sample_names (asc ''bxc3'') (console bishop_and_pawn) =
     Inr (Some (mv 9 18), console bishop_and_pawn)"
    by (simp add: eval_defs bishop_and_pawn_def)
  have e: "mv 9 18 \<noteq> mv 11 18" by (simp add: mv_def)
  from a b c d e show ?thesis by blast
qed

text \<open>
  C4. For a legal move between two squares of the board, the long-algebraic text (origin
  square, destination square, promotion letter when there is one) is parsed back to the
  move by \<open>Move.from_uci\<close> and accepted by the coordinate strategy. Resolving the text
  returns exactly the move, the algebraic parser, which is tried first, either rejecting
  the text or reading it as the same move (the library's parser accepts long algebraic
  notation).
\<close>

theorem uci_roundtrip:
  assumes leg: "m \<in> set (legal_moves (position w))"
    and bm: "board_move m"
    and ut: "uci m = Inr u"
  shows "from_uci u = Inr m \<and>
         try_uci_notation (lower u) (position w) = Some m \<and>
         (try_standard_notation u (position w) = None \<or>
          try_standard_notation u (position w) = Some m \<longrightarrow>
            parse_move names u w = Inr (Some m, w))"
proof -
  have u: "u = [97 + from_square m mod 8, 49 + from_square m div 8,
                       97 + to_square m mod 8, 49 + to_square m div 8] @
                      (case promotion m of None \<Rightarrow> [] | Some p \<Rightarrow> [symbol_of p])"
    using ut uci_text [OF bm] by simp
  have pl: "plain_text u" and lo: "lower u = u" and fu: "from_uci u = Inr m"
    unfolding u using uci_text_plain [OF bm] from_uci_text [OF bm] by blast+
  have tr: "move_bool m" using bm by (rule board_move_truthy)
  have tu: "try_uci_notation u (position w) = Some m"
    by (simp add: try_uci_notation_def fu leg)
  have a: "parse_move names u w = Inr (Some m, w)"
    if "try_standard_notation u (position w) = Some m"
    using that tr pl by (simp add: parse_move_standard normalized_plain)
  have b: "parse_move names u w = Inr (Some m, w)"
    if n: "try_standard_notation u (position w) = None"
    unfolding parse_move_normalized Let_def
    by (simp add: castling_plain [OF pl] truthy_None normalized_plain [OF pl] n lo tu
        truthy_Some_iff tr)
  from fu tu lo a b show ?thesis by auto
qed

theorem uci_roundtrip_witness:
  "promo 52 60 QUEEN \<in> set (legal_moves (position (console promotion_position))) \<and>
   board_move (promo 52 60 QUEEN) \<and>
   uci (promo 52 60 QUEEN) = Inr (asc ''e7e8q'') \<and>
   try_standard_notation (asc ''e7e8q'') (position (console promotion_position)) = None \<and>
   parse_move sample_names (asc ''e7e8q'') (console promotion_position) =
     Inr (Some (promo 52 60 QUEEN), console promotion_position)"
proof -
  have h1: "promo 52 60 QUEEN \<in> set (legal_moves (position (console promotion_position)))"
    by (simp add: console_def promotion_position_def snapshot_def)
  have h2: "board_move (promo 52 60 QUEEN)" by (simp add: board_move_def promo_def)
  have h3: "uci (promo 52 60 QUEEN) = Inr (asc ''e7e8q'')"
    by (simp add: uci_def promo_def square_name_def asc_def)
  have h4: "try_standard_notation (asc ''e7e8q'') (position (console promotion_position)) = None"
    by (simp add: try_standard_notation_def console_def promotion_position_def snapshot_def
        lookup_san_def asc_def capitalize_def upper_def lower_def upper_cp_def lower_cp_def)
  from uci_roundtrip [OF h1 h2 h3, of sample_names] h1 h2 h3 h4 show ?thesis by blast
qed

text \<open>
  C5. Resolving a token is the same as resolving the token in which every Cyrillic letter
  of the table is replaced by its Latin file letter: the replacement is the pointwise map
  \<open>translit\<close>, every entry of the table sends a lower-case letter to a lower-case letter
  and an upper-case letter to an upper-case one, and the parser applies the replacement
  once, to the stripped token, before any strategy. In particular the token written with
  the Cyrillic letter U+0435 followed by 4 resolves as \<open>e4\<close> does, on every board.
\<close>

theorem transliteration_invariance:
  "parse_move names (convert_cyrillic_to_latin t) w = parse_move names t w \<and>
   convert_cyrillic_to_latin t = map translit t \<and>
   list_all (\<lambda>(cyr, lat). (lower cyr = cyr) = (lower lat = lat) \<and>
                            (upper cyr = cyr) = (upper lat = lat)) cyrillic_to_latin \<and>
   parse_move names [0x435, 52] w = parse_move names (asc ''e4'') w"
proof -
  have inv: "\<And>u. parse_move names (convert_cyrillic_to_latin u) w = parse_move names u w"
    by (simp only: parse_move_normalized normalized_convert)
  have e4: "convert_cyrillic_to_latin [0x435, 52] = asc ''e4''"
    by (simp add: convert_map translit_simps asc_def)
  have c1: "parse_move names [0x435, 52] w = parse_move names (asc ''e4'') w"
    using inv [of "[0x435, 52]"] by (simp only: e4)
  have c2: "list_all (\<lambda>(cyr, lat). (lower cyr = cyr) = (lower lat = lat) \<and>
                            (upper cyr = cyr) = (upper lat = lat)) cyrillic_to_latin"
    by (simp add: cyrillic_to_latin_def asc_def lower_def upper_def lower_cp_def upper_cp_def)
  show ?thesis
    using inv [of t] convert_map [of t] c1 c2 by blast
qed

text \<open>
  C6. On a board whose legal moves can be formatted (the report of an ambiguous move does
  that outside any \<open>try\<close>), resolving any token on any board returns normally: a move, or no
  move and a report on the console, or no move and nothing printed. Nothing is assumed of
  the algebraic parser, which may raise on every text; when it raises on the three case
  variants the standard-notation strategy just does not match, and so does the coordinate
  strategy when the text is not a well-formed pair of squares.
\<close>

theorem resolution_always_returns:
  assumes "report_ready (position w)"
  shows "(\<exists>r ls. parse_move names t w = Inr (r, w\<lparr>stdout := stdout w @ ls\<rparr>) \<and>
            outcome_of w (r, w\<lparr>stdout := stdout w @ ls\<rparr>) =
              (case r of Some m \<Rightarrow> Resolved m
               | None \<Rightarrow> if ls = [] then Unrecognized else Ambiguous ls)) \<and>
         ((\<forall>v \<in> set [u, capitalize u, upper u]. isl (parse_san (position w) v)) \<longrightarrow>
            try_standard_notation u (position w) = None) \<and>
         (isl (from_uci u) \<longrightarrow> try_uci_notation u (position w) = None)"
proof -
  from parse_move_total [OF assms] obtain r ls where
    pm: "parse_move names t w = Inr (r, w\<lparr>stdout := stdout w @ ls\<rparr>)" by blast
  have oc: "outcome_of w (r, w\<lparr>stdout := stdout w @ ls\<rparr>) =
              (case r of Some m \<Rightarrow> Resolved m
               | None \<Rightarrow> if ls = [] then Unrecognized else Ambiguous ls)"
    by (simp add: outcome_of_def split: option.splits)
  have a: "(\<forall>v \<in> set [u, capitalize u, upper u]. isl (parse_san (position w) v)) \<longrightarrow>
            try_standard_notation u (position w) = None"
    unfolding try_standard_notation_def using standard_loop_raises by blast
  have b: "isl (from_uci u) \<longrightarrow> try_uci_notation u (position w) = None"
    by (auto simp: try_uci_notation_def split: sum.splits)
  from pm oc a b show ?thesis by blast
qed

theorem resolution_always_returns_witness:
  "report_ready (position (console two_knights)) \<and>
   parse_move sample_names ([0x43A, 0x456, 0x43D, 0x44C, 32, 0x43D, 0x430, 32] @ asc ''d2'')
     (console two_knights) =
   Inr (None, (console two_knights)\<lparr>stdout :=
     [AmbiguousHeader, CandidateLine (asc ''Nfd2'') (asc ''f3''),
      CandidateLine (asc ''Nbd2'') (asc ''b1''),
      HintLine (asc ''Nfd2'') (asc ''f3'') (asc ''d2'')]\<rparr>) \<and>
   isl (parse_san (position (console two_knights)) (asc ''nxd9'')) \<and>
   isl (parse_san (position (console two_knights)) (capitalize (asc ''nxd9''))) \<and>
   isl (parse_san (position (console two_knights)) (upper (asc ''nxd9''))) \<and>
   try_standard_notation (asc ''nxd9'') (position (console two_knights)) = None \<and>
   isl (from_uci (asc ''e9e4'')) \<and>
   try_uci_notation (asc ''e9e4'') (position (console two_knights)) = None"
proof -
  have h: "report_ready (position (console two_knights))" by (rule two_knights_ready)
  have e: "parse_move sample_names ([0x43A, 0x456, 0x43D, 0x44C, 32, 0x43D, 0x430, 32] @ asc ''d2'')
     (console two_knights) =
   Inr (None, (console two_knights)\<lparr>stdout :=
     [AmbiguousHeader, CandidateLine (asc ''Nfd2'') (asc ''f3''),
      CandidateLine (asc ''Nbd2'') (asc ''b1''),
      HintLine (asc ''Nfd2'') (asc ''f3'') (asc ''d2'')]\<rparr>)"
    by (simp add: eval_defs two_knights_def)
  have p: "isl (parse_san (position (console two_knights)) (asc ''nxd9''))"
    "isl (parse_san (position (console two_knights)) (capitalize (asc ''nxd9'')))"
    "isl (parse_san (position (console two_knights)) (upper (asc ''nxd9'')))"
    by (simp_all add: console_def two_knights_def snapshot_def lookup_san_def asc_def
        capitalize_def upper_def lower_def upper_cp_def lower_cp_def)
  have i: "isl (from_uci (asc ''e9e4''))"
    by (simp add: from_uci_def parse_square_def is_file_def is_rank_def asc_def)
  from resolution_always_returns [OF h, where u = "asc ''nxd9''"] p
  have a: "try_standard_notation (asc ''nxd9'') (position (console two_knights)) = None"
    by simp
  from resolution_always_returns [OF h, where u = "asc ''e9e4''"] i
  have b: "try_uci_notation (asc ''e9e4'') (position (console two_knights)) = None"
    by simp
  from h e p i a b show ?thesis by blast
qed

text \<open>
  C7. For a token in which no piece name is found and from which three or more squares
  are extracted, no strategy picks two of the squares: the coordinate strategy fails on a
  text of six characters or more, the natural-language strategy gives up on any count of
  squares other than one or two, and the dashed strategy cannot build a four- or
  five-character pair from it. So the token resolves to no move, with nothing printed,
  when the algebraic parser, tried before them, does not accept it.
\<close>

theorem three_squares_unrecognized:
  assumes np: "no_piece_name names (lower (normalized t))"
    and three: "3 \<le> length (extracted_squares names (lower (normalized t)))"
  shows "try_uci_notation (lower (normalized t)) (position w) = None \<and>
         try_human_language names (lower (normalized t)) w = Inr (None, w) \<and>
         try_dash_notation (lower (normalized t)) (position w) = None \<and>
         (try_standard_notation (normalized t) (position w) = None \<longrightarrow>
            parse_move names t w = Inr (None, w))"
proof -
  let ?x = "lower (normalized t)"
  have fp: "find_piece_name names ?x = (None, ?x)"
    using np by (rule find_piece_name_none)
  have sq3: "3 \<le> length (findall_squares (remove_fillers ?x))"
    using three by (simp add: extracted_squares_def fp)
  have "6 \<le> length (filter square_char (remove_fillers ?x))"
    using sq3 findall_count [of "remove_fillers ?x"] by linarith
  then have cnt: "6 \<le> length (filter square_char ?x)"
    using remove_fillers_count [of ?x] by linarith
  then have "6 \<le> length ?x"
    using length_filter_le [of square_char ?x] by linarith
  then have "isl (from_uci ?x)" by (rule from_uci_long)
  then have u: "try_uci_notation ?x (position w) = None"
    by (auto simp: try_uci_notation_def split: sum.splits)
  have h: "try_human_language names ?x w = Inr (None, w)"
    using sq3 by (simp add: try_human_language_def fp Let_def)
  have d: "try_dash_notation ?x (position w) = None"
    using cnt by (rule dash_long)
  have "parse_move names t w = Inr (None, w)"
    if std: "try_standard_notation (normalized t) (position w) = None"
    unfolding parse_move_normalized Let_def
    by (simp add: castling_dead truthy_None std u h d)
  with u h d show ?thesis by blast
qed

theorem three_squares_unrecognized_witness:
  "no_piece_name sample_names (lower (normalized (asc ''a1 b2 c3''))) \<and>
   extracted_squares sample_names (lower (normalized (asc ''a1 b2 c3''))) =
     [asc ''a1'', asc ''b2'', asc ''c3''] \<and>
   try_standard_notation (normalized (asc ''a1 b2 c3'')) (position (console pawn_push)) = None \<and>
   parse_move sample_names (asc ''a1 b2 c3'') (console pawn_push) = Inr (None, console pawn_push)"
proof -
  have n: "lower (normalized (asc ''a1 b2 c3'')) = asc ''a1 b2 c3''"
    "normalized (asc ''a1 b2 c3'') = asc ''a1 b2 c3''"
    by (simp_all add: text_defs)
  have h1: "no_piece_name sample_names (lower (normalized (asc ''a1 b2 c3'')))"
    unfolding n(1) by (simp add: no_piece_name_def sample_names_def asc_def)
  have e: "extracted_squares sample_names (lower (normalized (asc ''a1 b2 c3''))) =
     [asc ''a1'', asc ''b2'', asc ''c3'']"
    unfolding n(1)
    by (simp add: extracted_squares_def sample_names_def remove_fillers_def replace_def
        strip_def isspace_def is_file_def is_rank_def asc_def)
  have h2: "3 \<le> length (extracted_squares sample_names (lower (normalized (asc ''a1 b2 c3''))))"
    by (simp add: e)
  have h3: "try_standard_notation (normalized (asc ''a1 b2 c3'')) (position (console pawn_push)) = None"
    unfolding n(2)
    by (simp add: try_standard_notation_def console_def pawn_push_def snapshot_def
        lookup_san_def asc_def capitalize_def upper_def lower_def upper_cp_def lower_cp_def)
  from three_squares_unrecognized [OF h1 h2] h1 e h3 show ?thesis by blast
qed

text \<open>
  C8. When exactly one legal pawn move of the side to move ends on the square and no
  piece name occurs in the token, the natural-language strategy returns that move for the
  name of the square alone: the piece defaults to the pawn. So the token resolves to that
  move, the algebraic parser, which is tried first, either rejecting the token or reading
  it as the same move. A single pawn that reaches the square is not enough: a pawn on e7
  reaches e8 by four promotion moves, and \<open>e8\<close> resolves to no move, with a report of the
  four candidates.
\<close>

theorem lone_square_defaults_to_pawn:
  assumes sq: "parse_square s = Inr sq"
    and np: "no_piece_name names s"
    and one: "filter (qualifies (position w) PAWN sq) (legal_moves (position w)) = [m]"
    and tr: "move_bool m"
  shows "try_human_language names (lower s) w = Inr (Some m, w) \<and>
         (try_standard_notation s (position w) = None \<or>
          try_standard_notation s (position w) = Some m \<longrightarrow>
            parse_move names s w = Inr (Some m, w))"
proof -
  from parse_square_shape [OF sq] obtain f r where
    s: "s = [f, r]" and f: "is_file f" and r: "is_rank r" by blast
  note st = square_text [OF f r]
  have pl: "plain_text s" using st(1) s by simp
  have lo: "lower s = s" using st(2) by (simp add: s)
  have u: "try_uci_notation s (position w) = None"
    using st(5) by (auto simp: try_uci_notation_def s split: sum.splits)
  have pm: "piece_map (upper (asc ''P'')) = Some PAWN"
    by (simp add: piece_map_def upper_def upper_cp_def asc_def)
  have fm: "find_move_by_piece_and_target w (asc ''P'') s = Inr (Some m, w)"
    by (simp add: find_move_by_piece_and_target_def pm sq one Let_def)
  have fp: "find_piece_name names [f, r] = (None, [f, r])"
    using find_piece_name_none [OF np] by (simp add: s)
  have h: "try_human_language names s w = Inr (Some m, w)"
    using fm f r by (simp add: try_human_language_def fp Let_def s st(3))
  have a: "parse_move names s w = Inr (Some m, w)"
    if "try_standard_notation s (position w) = Some m"
    using that tr pl by (simp add: parse_move_standard normalized_plain)
  have b: "parse_move names s w = Inr (Some m, w)"
    if n: "try_standard_notation s (position w) = None"
    unfolding parse_move_normalized Let_def
    by (simp add: castling_plain [OF pl] truthy_None normalized_plain [OF pl] n u lo
        h truthy_Some_iff tr)
  from h lo a b show ?thesis by auto
qed

theorem lone_square_defaults_to_pawn_witness:
  "parse_square (asc ''e4'') = Inr 28 \<and>
   no_piece_name sample_names (asc ''e4'') \<and>
   filter (qualifies (position (console pawn_capture)) PAWN 28)
     (legal_moves (position (console pawn_capture))) = [mv 19 28] \<and>
   move_bool (mv 19 28) \<and>
   try_standard_notation (asc ''e4'') (position (console pawn_capture)) = None \<and>
   parse_move sample_names (asc ''e4'') (console pawn_capture) =
     Inr (Some (mv 19 28), console pawn_capture)"
proof -
  have h1: "parse_square (asc ''e4'') = Inr 28"
    by (simp add: parse_square_def is_file_def is_rank_def asc_def)
  have h2: "no_piece_name sample_names (asc ''e4'')"
    by (simp add: no_piece_name_def sample_names_def asc_def)
  have h3: "filter (qualifies (position (console pawn_capture)) PAWN 28)
     (legal_moves (position (console pawn_capture))) = [mv 19 28]"
    by (simp add: console_def pawn_capture_def snapshot_def qualifies_def mv_def pc_def)
  have h4: "move_bool (mv 19 28)" by (simp add: move_bool_def mv_def)
  have h5: "try_standard_notation (asc ''e4'') (position (console pawn_capture)) = None"
    by (simp add: try_standard_notation_def console_def pawn_capture_def snapshot_def
        lookup_san_def asc_def capitalize_def upper_def lower_def upper_cp_def lower_cp_def)
  from lone_square_defaults_to_pawn [OF h1 h2 h3 h4] h1 h2 h3 h4 h5
  show ?thesis by blast
qed

theorem lone_square_promotion_counterexample:
  "parse_square (asc ''e8'') = Inr 60 \<and>
   filter (qualifies promotion_position PAWN 60) (legal_moves promotion_position) =
     [promo 52 60 QUEEN, promo 52 60 ROOK, promo 52 60 BISHOP, promo 52 60 KNIGHT] \<and>
   parse_move sample_names (asc ''e8'') (console promotion_position) =
     Inr (None, (console promotion_position)\<lparr>stdout :=
       [AmbiguousHeader,
        CandidateLine (asc ''e8=Q'') (asc ''e7''), CandidateLine (asc ''e8=R'') (asc ''e7''),
        CandidateLine (asc ''e8=B'') (asc ''e7''), CandidateLine (asc ''e8=N'') (asc ''e7''),
        HintLine (asc ''e8=Q'') (asc ''e7'') (asc ''e8'')]\<rparr>)"
proof -
  have a: "parse_square (asc ''e8'') = Inr 60"
    by (simp add: parse_square_def is_file_def is_rank_def asc_def)
  have b: "filter (qualifies promotion_position PAWN 60) (legal_moves promotion_position) =
     [promo 52 60 QUEEN, promo 52 60 ROOK, promo 52 60 BISHOP, promo 52 60 KNIGHT]"
    by (simp add: promotion_position_def snapshot_def qualifies_def mv_def promo_def pc_def)
  have c: "parse_move sample_names (asc ''e8'') (console promotion_position) =
     Inr (None, (console promotion_position)\<lparr>stdout :=
       [AmbiguousHeader,
        CandidateLine (asc ''e8=Q'') (asc ''e7''), CandidateLine (asc ''e8=R'') (asc ''e7''),
        CandidateLine (asc ''e8=B'') (asc ''e7''), CandidateLine (asc ''e8=N'') (asc ''e7''),
        HintLine (asc ''e8=Q'') (asc ''e7'') (asc ''e8'')]\<rparr>)"
    by (simp add: eval_defs promotion_position_def)
  from a b c show ?thesis by blast
qed

text \<open>
  C9. Resolving a token never changes the position: whatever the outcome, the board of
  the state after the call is the board of the state before it. Only the console can
  change (the report of an ambiguous move).
\<close>

theorem parse_move_preserves_position:
  "parse_move names t w = Inr (r, w') \<Longrightarrow> position w' = position w"
  by (auto simp: parse_move_def Let_def split: if_splits sum.splits prod.splits
      dest: try_human_frame)

theorem parse_move_preserves_position_witness:
  "parse_move sample_names ([0x43A, 0x456, 0x43D, 0x44C, 32, 0x43D, 0x430, 32] @ asc ''d2'')
     (console two_knights) =
   Inr (None, (console two_knights)\<lparr>stdout :=
     [AmbiguousHeader, CandidateLine (asc ''Nfd2'') (asc ''f3''),
      CandidateLine (asc ''Nbd2'') (asc ''b1''),
      HintLine (asc ''Nfd2'') (asc ''f3'') (asc ''d2'')]\<rparr>) \<and>
   position ((console two_knights)\<lparr>stdout :=
     [AmbiguousHeader, CandidateLine (asc ''Nfd2'') (asc ''f3''),
      CandidateLine (asc ''Nbd2'') (asc ''b1''),
      HintLine (asc ''Nfd2'') (asc ''f3'') (asc ''d2'')]\<rparr>) = position (console two_knights)"
proof -
  have h: "parse_move sample_names ([0x43A, 0x456, 0x43D, 0x44C, 32, 0x43D, 0x430, 32] @ asc ''d2'')
     (console two_knights) =
   Inr (None, (console two_knights)\<lparr>stdout :=
     [AmbiguousHeader, CandidateLine (asc ''Nfd2'') (asc ''f3''),
      CandidateLine (asc ''Nbd2'') (asc ''b1''),
      HintLine (asc ''Nfd2'') (asc ''f3'') (asc ''d2'')]\<rparr>)"
    by (simp add: eval_defs two_knights_def)
  from parse_move_preserves_position [OF h] h show ?thesis by blast
qed

text \<open>
  C10. When the algebraic parser of the rules engine returns only legal moves (or the null
  move), a move returned by the resolution is one of the legal moves of the board.
\<close>

theorem resolved_move_is_legal:
  assumes "parser_sound (position w)" and "parse_move names t w = Inr (Some m, w')"
  shows "m \<in> set (legal_moves (position w))"
proof -
  let ?b = "position w"
  have ps: "\<And>s. parse_san ?b s = Inr m \<Longrightarrow> move_bool m \<Longrightarrow> m \<in> set (legal_moves ?b)"
    using assms(1) by (auto simp: parser_sound_def)
  from parse_move_Some [OF assms(2)] have tr: "move_bool m" and
    cases: "try_castling_ukrainian (normalized t) ?b = Some m \<or>
     try_standard_notation (normalized t) ?b = Some m \<or>
     try_uci_notation (lower (normalized t)) ?b = Some m \<or>
     try_human_language names (lower (normalized t)) w = Inr (Some m, w') \<or>
     try_dash_notation (lower (normalized t)) ?b = Some m"
    by blast+
  from cases show ?thesis
  proof (elim disjE)
    assume "try_castling_ukrainian (normalized t) ?b = Some m"
    then have "\<exists>s. parse_san ?b s = Inr m"
      unfolding try_castling_ukrainian_def by (rule castling_loop_sound)
    then show ?thesis using ps tr by blast
  next
    assume "try_standard_notation (normalized t) ?b = Some m"
    then show ?thesis
      using standard_loop_sound ps tr unfolding try_standard_notation_def by blast
  next
    assume "try_uci_notation (lower (normalized t)) ?b = Some m"
    then show ?thesis by (rule try_uci_sound)
  next
    assume "try_human_language names (lower (normalized t)) w = Inr (Some m, w')"
    then show ?thesis using try_human_sound by blast
  next
    assume "try_dash_notation (lower (normalized t)) ?b = Some m"
    then show ?thesis by (rule try_dash_sound)
  qed
qed

theorem resolved_move_is_legal_witness:
  "parser_sound (position (console pawn_capture)) \<and>
   parse_move sample_names (asc ''e4'') (console pawn_capture) =
     Inr (Some (mv 19 28), console pawn_capture) \<and>
   mv 19 28 \<in> set (legal_moves (position (console pawn_capture)))"
proof -
  have h1: "parser_sound (position (console pawn_capture))"
    by (simp add: console_def pawn_capture_def parser_sound_snapshot)
  have h2: "parse_move sample_names (asc ''e4'') (console pawn_capture) =
     Inr (Some (mv 19 28), console pawn_capture)"
    by (simp add: eval_defs pawn_capture_def)
  from resolved_move_is_legal [OF h1 h2] h1 h2 show ?thesis by blast
qed

end
